theory Spec2Isabelle
  imports Main "HOL-Library.Word" "HOL-Library.Char_ord" "HOL-Library.List_Lexorder"
begin

unbundle bit_operations_syntax

text \<open>
  A shallow embedding of three parts of trueseeing: the analysis context
  (\<open>context.py\<close>: fingerprint, cache directory, single-shot analysis, memoized
  listings, class-file names), the defined-package search (\<open>search.py\<close>) and the
  config modifier (\<open>config.py\<close>). The Python library functions they call
  (\<open>posixpath\<close>, \<open>str\<close>, \<open>hashlib.sha256\<close>, \<open>glob\<close>, \<open>os.walk\<close>,
  \<open>os.makedirs\<close>, \<open>zipfile\<close>) are modelled first, on strings of bytes and on a
  file tree; the definitions come first, the properties and the claims after them.
\<close>

section \<open>Python values and exceptions\<close>

text \<open>
  Every exception the modelled code can raise is a value of \<open>error\<close>. A function that
  may raise returns \<open>error + 'a\<close> (\<open>Inl\<close> the exception); a method that mutates its
  object before raising returns the exception next to the updated object.
\<close>

datatype error =
    ValueError string
  | KeyError string
  | TypeError
  | IndexError
  | AssertionError
  | OSError
  | BadZipFile
  | UnicodeDecodeError
  | ReError
  | InvalidConfigKeyError
  | FatalError string

text \<open>
  The values kept in the string-keyed dictionaries of the program (\<open>Context.state\<close>,
  \<open>ConfigCommand._stash\<close>): a list of path strings, a handle on the Fact Store of a
  cache directory, a string, or another configuration value.
\<close>

datatype pyval =
    PyNone
  | PyStr string
  | PyInt int
  | PyBool bool
  | PyList "string list"
  | PyStore string

section \<open>Strings\<close>

text \<open>\<open>str.startswith\<close> and \<open>str.endswith\<close>.\<close>

definition startswith :: "string \<Rightarrow> string \<Rightarrow> bool" where
  "startswith s p = (take (length p) s = p)"

definition endswith :: "string \<Rightarrow> string \<Rightarrow> bool" where
  "endswith s p = (length p \<le> length s \<and> drop (length s - length p) s = p)"

text \<open>\<open>s.split(c)\<close> for a one-character separator: never the empty list.\<close>

fun split_on :: "char \<Rightarrow> string \<Rightarrow> string list" where
  "split_on c [] = [[]]"
| "split_on c (x # xs) =
     (if x = c then [] # split_on c xs
      else (case split_on c xs of
              [] \<Rightarrow> [[x]]
            | y # ys \<Rightarrow> (x # y) # ys))"

text \<open>\<open>sep.join(xs)\<close> for a one-character separator.\<close>

fun join_with :: "char \<Rightarrow> string list \<Rightarrow> string" where
  "join_with c [] = []"
| "join_with c [x] = x"
| "join_with c (x # y # ys) = x @ c # join_with c (y # ys)"

text \<open>\<open>s.rstrip(c)\<close>: drop every trailing \<open>c\<close>.\<close>

definition rstrip :: "char \<Rightarrow> string \<Rightarrow> string" where
  "rstrip c s = rev (dropWhile (\<lambda>x. x = c) (rev s))"

text \<open>
  \<open>s.find(old)\<close>: the index of the first occurrence, \<open>None\<close> for Python's \<open>-1\<close>.
\<close>

fun py_find :: "string \<Rightarrow> string \<Rightarrow> nat option" where
  "py_find [] old = (if old = [] then Some 0 else None)"
| "py_find (x # xs) old =
     (if startswith (x # xs) old then Some 0
      else map_option Suc (py_find xs old))"

text \<open>
  \<open>s.replace(old, new)\<close> for a non-empty \<open>old\<close>: scan from the left, replace each
  occurrence and go on behind it. The counter \<open>k\<close> is the number of characters of a
  replaced occurrence still to be skipped.
\<close>

fun replace_from :: "nat \<Rightarrow> string \<Rightarrow> string \<Rightarrow> string \<Rightarrow> string" where
  "replace_from k old new [] = []"
| "replace_from (Suc k) old new (x # xs) = replace_from k old new xs"
| "replace_from 0 old new (x # xs) =
     (if startswith (x # xs) old then new @ replace_from (length old - 1) old new xs
      else x # replace_from 0 old new xs)"

definition py_replace :: "string \<Rightarrow> string \<Rightarrow> string \<Rightarrow> string" where
  "py_replace s old new =
     (if old = [] then new @ concat (map (\<lambda>x. x # new) s)
      else replace_from 0 old new s)"

section \<open>Paths (posixpath)\<close>

text \<open>\<open>os.path.join(a, b)\<close> and \<open>os.path.join(a, *bs)\<close>.\<close>

definition join2 :: "string \<Rightarrow> string \<Rightarrow> string" where
  "join2 a b =
     (if startswith b ''/'' then b
      else if a = [] \<or> endswith a ''/'' then a @ b
      else a @ ''/'' @ b)"

definition path_join :: "string \<Rightarrow> string list \<Rightarrow> string" where
  "path_join a bs = foldl join2 a bs"

text \<open>
  \<open>os.path.split(p)\<close>: cut behind the last slash; the head loses its trailing slashes
  unless it consists of slashes only. \<open>os.path.dirname\<close> is its first component.
\<close>

definition path_split :: "string \<Rightarrow> string \<times> string" where
  "path_split p =
     (let tail = rev (takeWhile (\<lambda>x. x \<noteq> CHR ''/'') (rev p));
          head = take (length p - length tail) p
      in (if head \<noteq> [] \<and> head \<noteq> replicate (length head) CHR ''/''
          then rstrip CHR ''/'' head else head, tail))"

definition dirname :: "string \<Rightarrow> string" where
  "dirname p = fst (path_split p)"

text \<open>
  \<open>os.path.normpath(p)\<close>. The loop over the components keeps the list of components
  accepted so far; \<open>slashes\<close> is the number of leading slashes kept (0, 1 or 2).
\<close>

definition initial_slashes :: "string \<Rightarrow> nat" where
  "initial_slashes p =
     (if \<not> startswith p ''/'' then 0
      else if startswith p ''//'' \<and> \<not> startswith p ''///'' then 2
      else 1)"

fun norm_comps :: "nat \<Rightarrow> string list \<Rightarrow> string list \<Rightarrow> string list" where
  "norm_comps sl acc [] = acc"
| "norm_comps sl acc (c # cs) =
     (if c = [] \<or> c = ''.'' then norm_comps sl acc cs
      else if c \<noteq> ''..'' \<or> (sl = 0 \<and> acc = []) \<or> (acc \<noteq> [] \<and> last acc = ''..'')
        then norm_comps sl (acc @ [c]) cs
      else if acc \<noteq> [] then norm_comps sl (butlast acc) cs
      else norm_comps sl acc cs)"

definition normpath :: "string \<Rightarrow> string" where
  "normpath p =
     (if p = [] then ''.''
      else
        (let sl = initial_slashes p;
             q = replicate sl CHR ''/'' @ join_with CHR ''/'' (norm_comps sl [] (split_on CHR ''/'' p))
         in if q = [] then ''.'' else q))"

text \<open>\<open>os.path.abspath(p)\<close>, with the current directory of the process given.\<close>

definition abspath :: "string \<Rightarrow> string \<Rightarrow> string" where
  "abspath cwd p = normpath (if startswith p ''/'' then p else join2 cwd p)"

text \<open>
  The components of a path as \<open>os.path.relpath\<close> takes them:
  \<open>[x for x in abspath(p).split(sep) if x]\<close>. They also name the node the path
  stands for in the file tree.
\<close>

definition path_list :: "string \<Rightarrow> string \<Rightarrow> string list" where
  "path_list cwd p = filter (\<lambda>x. x \<noteq> []) (split_on CHR ''/'' (abspath cwd p))"

text \<open>
  \<open>len(os.path.commonprefix([xs, ys]))\<close> on two lists of components: the length of
  their longest common prefix.
\<close>

fun common_len :: "string list \<Rightarrow> string list \<Rightarrow> nat" where
  "common_len (x # xs) (y # ys) = (if x = y then Suc (common_len xs ys) else 0)"
| "common_len _ _ = 0"

text \<open>
  \<open>os.path.relpath(path, start)\<close>; \<open>start = None\<close> stands for Python's \<open>None\<close>,
  which means the current directory. An empty \<open>path\<close> raises \<open>ValueError\<close>.
\<close>

definition relpath :: "string \<Rightarrow> string \<Rightarrow> string option \<Rightarrow> error + string" where
  "relpath cwd path start =
     (if path = [] then Inl (ValueError ''no path specified'')
      else
        (let start_list = path_list cwd (case start of None \<Rightarrow> ''.'' | Some s \<Rightarrow> s);
             plist = path_list cwd path;
             i = common_len start_list plist;
             rel_list = replicate (length start_list - i) ''..'' @ drop i plist
         in case rel_list of
              [] \<Rightarrow> Inr ''.''
            | r # rs \<Rightarrow> Inr (path_join r rs)))"

section \<open>SHA-256 (hashlib.sha256, hexdigest)\<close>

text \<open>
  The digest of FIPS 180-4 on a byte string; a \<open>char\<close> is one byte. Words are
  \<open>32 word\<close>, so \<open>+\<close> wraps as the standard asks.
\<close>

type_synonym w32 = "32 word"

definition K256 :: "w32 list" where
  "K256 = concat
     [[0x428a2f98, 0x71374491, 0xb5c0fbcf, 0xe9b5dba5],
      [0x3956c25b, 0x59f111f1, 0x923f82a4, 0xab1c5ed5],
      [0xd807aa98, 0x12835b01, 0x243185be, 0x550c7dc3],
      [0x72be5d74, 0x80deb1fe, 0x9bdc06a7, 0xc19bf174],
      [0xe49b69c1, 0xefbe4786, 0x0fc19dc6, 0x240ca1cc],
      [0x2de92c6f, 0x4a7484aa, 0x5cb0a9dc, 0x76f988da],
      [0x983e5152, 0xa831c66d, 0xb00327c8, 0xbf597fc7],
      [0xc6e00bf3, 0xd5a79147, 0x06ca6351, 0x14292967],
      [0x27b70a85, 0x2e1b2138, 0x4d2c6dfc, 0x53380d13],
      [0x650a7354, 0x766a0abb, 0x81c2c92e, 0x92722c85],
      [0xa2bfe8a1, 0xa81a664b, 0xc24b8b70, 0xc76c51a3],
      [0xd192e819, 0xd6990624, 0xf40e3585, 0x106aa070],
      [0x19a4c116, 0x1e376c08, 0x2748774c, 0x34b0bcb5],
      [0x391c0cb3, 0x4ed8aa4a, 0x5b9cca4f, 0x682e6ff3],
      [0x748f82ee, 0x78a5636f, 0x84c87814, 0x8cc70208],
      [0x90befffa, 0xa4506ceb, 0xbef9a3f7, 0xc67178f2]]"

definition H256 :: "w32 list" where
  "H256 = concat
     [[0x6a09e667, 0xbb67ae85, 0x3c6ef372, 0xa54ff53a],
      [0x510e527f, 0x9b05688c, 0x1f83d9ab, 0x5be0cd19]]"

definition sha_pad :: "string \<Rightarrow> 8 word list" where
  "sha_pad m =
     (let n = length m;
          z = (55 + 64 - n mod 64) mod 64;
          bits = (word_of_nat (8 * n) :: 64 word)
      in map (\<lambda>c. word_of_nat (of_char c)) m @ [0x80] @ replicate z 0
         @ map (\<lambda>i. ucast (drop_bit (8 * i) bits)) [7, 6, 5, 4, 3, 2, 1, 0])"

fun be_words :: "8 word list \<Rightarrow> w32 list" where
  "be_words (a # b # c # d # r) =
     (push_bit 24 (ucast a) OR push_bit 16 (ucast b) OR push_bit 8 (ucast c) OR ucast d)
     # be_words r"
| "be_words _ = []"

fun schedule :: "nat \<Rightarrow> w32 list \<Rightarrow> w32 list" where
  "schedule 0 ws = ws"
| "schedule (Suc k) ws =
     (let n = length ws;
          x = ws ! (n - 15);
          y = ws ! (n - 2);
          s0 = word_rotr 7 x XOR word_rotr 18 x XOR drop_bit 3 x;
          s1 = word_rotr 17 y XOR word_rotr 19 y XOR drop_bit 10 y
      in schedule k (ws @ [ws ! (n - 16) + s0 + ws ! (n - 7) + s1]))"

type_synonym sha_state = "w32 \<times> w32 \<times> w32 \<times> w32 \<times> w32 \<times> w32 \<times> w32 \<times> w32"

fun sha_round :: "sha_state \<Rightarrow> w32 \<times> w32 \<Rightarrow> sha_state" where
  "sha_round (a, b, c, d, e, f, g, h) (k, w) =
     (let s1 = word_rotr 6 e XOR word_rotr 11 e XOR word_rotr 25 e;
          ch = (e AND f) XOR (NOT e AND g);
          t1 = h + s1 + ch + k + w;
          s0 = word_rotr 2 a XOR word_rotr 13 a XOR word_rotr 22 a;
          maj = (a AND b) XOR (a AND c) XOR (b AND c);
          t2 = s0 + maj
      in (t1 + t2, a, b, c, d + t1, e, f, g))"

fun sha_add :: "sha_state \<Rightarrow> sha_state \<Rightarrow> sha_state" where
  "sha_add (a, b, c, d, e, f, g, h) (a', b', c', d', e', f', g', h') =
     (a + a', b + b', c + c', d + d', e + e', f + f', g + g', h + h')"

definition sha_block :: "sha_state \<Rightarrow> w32 list \<Rightarrow> sha_state" where
  "sha_block st ws = sha_add st (foldl sha_round st (zip K256 (schedule 48 ws)))"

fun sha_blocks :: "nat \<Rightarrow> sha_state \<Rightarrow> w32 list \<Rightarrow> sha_state" where
  "sha_blocks 0 st ws = st"
| "sha_blocks (Suc n) st ws = sha_blocks n (sha_block st (take 16 ws)) (drop 16 ws)"

definition sha256 :: "string \<Rightarrow> sha_state" where
  "sha256 m =
     (let ws = be_words (sha_pad m)
      in sha_blocks (length ws div 16)
           (H256 ! 0, H256 ! 1, H256 ! 2, H256 ! 3, H256 ! 4, H256 ! 5, H256 ! 6, H256 ! 7) ws)"

definition hex_digit :: "nat \<Rightarrow> char" where
  "hex_digit n = ''0123456789abcdef'' ! (n mod 16)"

definition hex32 :: "w32 \<Rightarrow> string" where
  "hex32 w = map (\<lambda>i. hex_digit (unat (drop_bit (4 * i) w AND 15))) [7, 6, 5, 4, 3, 2, 1, 0]"

fun hexdigest :: "sha_state \<Rightarrow> string" where
  "hexdigest (a, b, c, d, e, f, g, h) =
     hex32 a @ hex32 b @ hex32 c @ hex32 d @ hex32 e @ hex32 f @ hex32 g @ hex32 h"

definition sha256_hex :: "string \<Rightarrow> string" where
  "sha256_hex m = hexdigest (sha256 m)"

section \<open>The file tree and the world outside the process\<close>

text \<open>
  A node of the file tree is a regular file with its bytes, a zip archive with its
  members in archive order (name and content), or a directory with its entries in the
  order \<open>os.scandir\<close> lists them. Symbolic links and permissions are not modelled; a
  zip archive read as text counts as undecodable.
\<close>

datatype fsnode =
    File string
  | Zip "(string \<times> string) list"
  | Dir "(string \<times> fsnode) list"

text \<open>
  The world: the file tree below \<open>/\<close>, the current directory, the environment, the
  command lines run through \<open>os.system\<close>, the texts handed to the class parser, and
  the persisted Fact Store of each cache directory.
\<close>

record 'f world =
  fs :: fsnode
  cwd :: string
  environ :: "string \<rightharpoonup> string"
  commands :: "string list"
  parsed :: "string list"
  stores :: "string \<Rightarrow> 'f list"

text \<open>
  What the program calls outside itself: the effect of a command line on the file tree
  (the disassembler is run through \<open>os.system\<close>, which never raises), the path of the
  bundled disassembler jar (\<open>pkg_resources.resource_filename\<close>), and the class parser.
\<close>

record 'f ext =
  run_command :: "string \<Rightarrow> fsnode \<Rightarrow> fsnode"
  apktool_jar :: string
  smali_facts :: "string \<Rightarrow> error + 'f list"

fun lookup_node :: "fsnode \<Rightarrow> string list \<Rightarrow> fsnode option" where
  "lookup_node n [] = Some n"
| "lookup_node (Dir es) (s # ss) =
     (case map_of es s of None \<Rightarrow> None | Some c \<Rightarrow> lookup_node c ss)"
| "lookup_node _ (s # ss) = None"

text \<open>The node a path string names; the empty path names nothing.\<close>

definition resolve :: "'f world \<Rightarrow> string \<Rightarrow> fsnode option" where
  "resolve w p = (if p = [] then None else lookup_node (fs w) (path_list (cwd w) p))"

definition isdir :: "'f world \<Rightarrow> string \<Rightarrow> bool" where
  "isdir w p = (case resolve w p of Some (Dir es) \<Rightarrow> True | _ \<Rightarrow> False)"

fun is_dir_node :: "fsnode \<Rightarrow> bool" where
  "is_dir_node (Dir es) = True"
| "is_dir_node _ = False"

text \<open>
  \<open>os.walk(top)\<close>, top-down: one triple (directory path, names of its subdirectories,
  names of its other entries) per directory. A \<open>top\<close> that is no directory yields
  nothing: \<open>os.walk\<close> swallows the error of listing it.
\<close>

fun walk :: "string \<Rightarrow> fsnode \<Rightarrow> (string \<times> string list \<times> string list) list" where
  "walk root (Dir es) =
     (root, map fst (filter (\<lambda>e. is_dir_node (snd e)) es),
           map fst (filter (\<lambda>e. \<not> is_dir_node (snd e)) es))
     # concat (map (\<lambda>e. walk (join2 root (fst e)) (snd e)) es)"
| "walk root _ = []"

definition os_walk :: "'f world \<Rightarrow> string \<Rightarrow> (string \<times> string list \<times> string list) list" where
  "os_walk w p = (case resolve w p of Some n \<Rightarrow> walk p n | None \<Rightarrow> [])"

text \<open>
  \<open>glob.glob(os.path.join(d, 'smali*/'))\<close> for a \<open>d\<close> without glob metacharacters:
  the pattern is split twice (\<open>'smali*/'\<close> into \<open>'smali*'\<close> and the empty base name,
  then the directory part off \<open>'smali*'\<close>); the entries of that directory that are
  directories and whose names start with \<open>smali\<close> are joined back, each with the
  trailing slash of the pattern. A \<open>d\<close> that holds \<open>*\<close>, \<open>?\<close> or \<open>[\<close> is itself
  matched as a pattern by \<open>glob.glob\<close>; the definition takes it literally, so what is
  stated about the files listed for a working directory is stated under
  \<open>\<not> has_magic d\<close>.
\<close>

definition has_magic :: "string \<Rightarrow> bool" where
  "has_magic p = (\<exists>c \<in> set p. c = CHR ''*'' \<or> c = CHR ''?'' \<or> c = CHR ''['')"

definition glob_smali :: "'f world \<Rightarrow> string \<Rightarrow> string list" where
  "glob_smali w d =
     (let pathname = join2 d ''smali*/'';
          dir1 = fst (path_split pathname);
          dir2 = fst (path_split dir1)
      in case (if dir2 = [] then lookup_node (fs w) (path_list (cwd w) ''.'') else resolve w dir2) of
           Some (Dir es) \<Rightarrow>
             map (\<lambda>e. join2 (join2 dir2 (fst e)) [])
               (filter (\<lambda>e. is_dir_node (snd e) \<and> startswith (fst e) ''smali'') es)
         | _ \<Rightarrow> [])"

text \<open>
  \<open>os.makedirs(p)\<close> on the components of \<open>p\<close>: the missing directories are created,
  the last one included. \<open>None\<close> is the \<open>OSError\<close>: the path exists already, or
  one of its ancestors is not a directory.
\<close>

fun new_dirs :: "string list \<Rightarrow> fsnode" where
  "new_dirs [] = Dir []"
| "new_dirs (s # ss) = Dir [(s, new_dirs ss)]"

fun mk_path :: "string list \<Rightarrow> fsnode \<Rightarrow> fsnode option" where
  "mk_path [] n = None"
| "mk_path (s # ss) (Dir es) =
     (case map_of es s of
        None \<Rightarrow> Some (Dir (es @ [(s, new_dirs ss)]))
      | Some c \<Rightarrow>
          (case mk_path ss c of
             None \<Rightarrow> None
           | Some c' \<Rightarrow> Some (Dir (map (\<lambda>e. if fst e = s then (s, c') else e) es))))"
| "mk_path (s # ss) _ = None"

definition makedirs :: "'f world \<Rightarrow> string \<Rightarrow> error + 'f world" where
  "makedirs w p =
     (if p = [] then Inl OSError
      else case mk_path (path_list (cwd w) p) (fs w) of
             None \<Rightarrow> Inl OSError
           | Some t \<Rightarrow> Inr (w\<lparr>fs := t\<rparr>))"

text \<open>\<open>open(fn, 'r').read()\<close>.\<close>

definition read_text :: "'f world \<Rightarrow> string \<Rightarrow> error + string" where
  "read_text w fn =
     (case resolve w fn of
        Some (File s) \<Rightarrow> Inr s
      | Some (Zip ms) \<Rightarrow> Inl UnicodeDecodeError
      | _ \<Rightarrow> Inl OSError)"

text \<open>
  \<open>zipfile.ZipFile(apk, 'r').open(name).read()\<close>: the name table of an archive keeps
  the last member of each name; a name that is not in it raises \<open>KeyError\<close>.
\<close>

definition zip_read :: "'f world \<Rightarrow> string \<Rightarrow> string \<Rightarrow> error + string" where
  "zip_read w apk name =
     (case resolve w apk of
        Some (Zip ms) \<Rightarrow>
          (case map_of (rev ms) name of
             None \<Rightarrow> Inl (KeyError name)
           | Some s \<Rightarrow> Inr s)
      | Some (File s) \<Rightarrow> Inl BadZipFile
      | _ \<Rightarrow> Inl OSError)"

text \<open>\<open>os.system(cmd)\<close>: the command runs, whatever it does, and is logged.\<close>

definition os_system :: "'f ext \<Rightarrow> string \<Rightarrow> 'f world \<Rightarrow> 'f world" where
  "os_system E cmd w = w\<lparr>fs := run_command E cmd (fs w), commands := commands w @ [cmd]\<rparr>"

section \<open>The Fact Store and the class parser\<close>

text \<open>
  Modelled from the spec: \<open>trueseeing.store.Store\<close> is not among the sources. The spec
  has the Fact Store persisted in the cache directory, built once and append-only, and
  opened directly when the directory is reused. \<open>Store(path)\<close> is therefore a handle
  that names the cache directory; the content it reads and appends to is the persisted
  content of that directory in the world, empty for a directory that was never written.
\<close>

definition Store :: "string \<Rightarrow> pyval" where
  "Store path = PyStore path"

fun is_store :: "pyval \<Rightarrow> bool" where
  "is_store (PyStore path) = True"
| "is_store _ = False"

fun store_content :: "'f world \<Rightarrow> pyval \<Rightarrow> error + 'f list" where
  "store_content w (PyStore path) = Inr (stores w path)"
| "store_content w _ = Inl TypeError"

text \<open>
  Modelled from the spec: \<open>trueseeing.code.parse.SmaliAnalyzer\<close> is not among the
  sources. \<open>SmaliAnalyzer(store).analyze(text)\<close> parses the text (the parser itself is
  \<open>smali_facts\<close>) and inserts the facts into the store; the world logs the text of
  every invocation.
\<close>

definition smali_analyze ::
  "'f ext \<Rightarrow> pyval \<Rightarrow> string \<Rightarrow> 'f world \<Rightarrow> error option \<times> 'f world" where
  "smali_analyze E h text w =
     (let w1 = w\<lparr>parsed := parsed w @ [text]\<rparr>
      in case smali_facts E text of
           Inl e \<Rightarrow> (Some e, w1)
         | Inr facts \<Rightarrow>
             (case h of
                PyStore path \<Rightarrow> (None, w1\<lparr>stores := (stores w1)(path := stores w1 path @ facts)\<rparr>)
              | _ \<Rightarrow> (Some TypeError, w1)))"

section \<open>Context (context.py)\<close>

text \<open>
  The attributes of the class \<open>Context\<close>. The record is named \<open>ctx\<close>; \<open>Context\<close>
  below is the object \<open>Context()\<close> builds.
\<close>

record ctx =
  "notes" :: "string list"
  apk :: "string option"
  wd :: "string option"
  state :: "string \<rightharpoonup> pyval"

definition Context :: ctx where
  "Context = \<lparr>notes = [], apk = None, wd = None, state = Map.empty\<rparr>"

text \<open>\<open>Context.fingerprint_of\<close>.\<close>

definition fingerprint_of :: "'f world \<Rightarrow> string \<Rightarrow> error + string" where
  "fingerprint_of w a =
     (case zip_read w a ''META-INF/MANIFEST.MF'' of
        Inl e \<Rightarrow> Inl e
      | Inr bytes \<Rightarrow> Inr (sha256_hex bytes))"

text \<open>\<open>Context.workdir_of\<close>: the fingerprint first, then \<open>os.environ['HOME']\<close>.\<close>

definition workdir_of :: "'f world \<Rightarrow> string \<Rightarrow> error + string" where
  "workdir_of w a =
     (case fingerprint_of w a of
        Inl e \<Rightarrow> Inl e
      | Inr hashed \<Rightarrow>
          (case environ w ''HOME'' of
             None \<Rightarrow> Inl (KeyError ''HOME'')
           | Some home \<Rightarrow>
               Inr (path_join home
                      [''.trueseeing2'', take 2 hashed, take 2 (drop 2 hashed), drop 4 hashed])))"

text \<open>
  \<open>Context.store\<close>: the assertion, then the cached handle, or a new one that is cached.
  The recursive call of the source finds the key it has just set, so it returns the
  new handle.
\<close>

definition store :: "ctx \<Rightarrow> (error + pyval) \<times> ctx" where
  "store c =
     (case wd c of
        None \<Rightarrow> (Inl AssertionError, c)
      | Some d \<Rightarrow>
          (case state c ''ts2.store'' of
             Some h \<Rightarrow> (Inr h, c)
           | None \<Rightarrow> (Inr (Store d), c\<lparr>state := (state c)(''ts2.store'' \<mapsto> Store d)\<rparr>)))"

text \<open>
  The three memoized listings share one shape: return the cached value; on a miss bind
  the key to the empty list, build the path (\<open>os.path.join\<close> on a \<open>wd\<close> that is still
  \<open>None\<close> raises \<open>TypeError\<close>, with the key already bound), extend the list with the
  matching files of every directory walked, and return it through the recursive call,
  which now finds the key.
\<close>

definition collect_files ::
  "(string \<Rightarrow> bool) \<Rightarrow> (string \<times> string list \<times> string list) list \<Rightarrow> string list" where
  "collect_files keep triples =
     concat (map (\<lambda>(root, dirs, files). map (join2 root) (filter keep files)) triples)"

definition memoized ::
  "string \<Rightarrow> (string \<Rightarrow> string list) \<Rightarrow> ctx \<Rightarrow> (error + pyval) \<times> ctx" where
  "memoized key listing c =
     (case state c key of
        Some v \<Rightarrow> (Inr v, c)
      | None \<Rightarrow>
          (let c0 = c\<lparr>state := (state c)(key \<mapsto> PyList [])\<rparr>
           in case wd c of
                None \<Rightarrow> (Inl TypeError, c0)
              | Some d \<Rightarrow>
                  (Inr (PyList (listing d)),
                   c0\<lparr>state := (state c0)(key \<mapsto> PyList (listing d))\<rparr>)))"

definition disassembled_classes :: "'f world \<Rightarrow> ctx \<Rightarrow> (error + pyval) \<times> ctx" where
  "disassembled_classes w c =
     memoized ''ts2.context.disassembled_classes''
       (\<lambda>d. collect_files (\<lambda>f. endswith f ''.smali'')
               (concat (map (os_walk w) (glob_smali w d)))) c"

definition disassembled_resources :: "'f world \<Rightarrow> ctx \<Rightarrow> (error + pyval) \<times> ctx" where
  "disassembled_resources w c =
     memoized ''ts2.context.disassembled_resources''
       (\<lambda>d. collect_files (\<lambda>f. endswith f ''.xml'') (os_walk w (join2 d ''res''))) c"

definition string_resource_files :: "'f world \<Rightarrow> ctx \<Rightarrow> (error + pyval) \<times> ctx" where
  "string_resource_files w c =
     memoized ''ts2.context.string_resource_files''
       (\<lambda>d. collect_files (\<lambda>f. py_find f ''strings'' \<noteq> None)
               (os_walk w (path_join d [''res'', ''values'']))) c"

text \<open>
  \<open>Context.source_name_of_disassembled_class\<close>: the path relative to the working
  directory, without its first component. \<open>os.path.join\<close> of no component at all
  raises \<open>TypeError\<close>.
\<close>

definition source_name_of_disassembled_class ::
  "'f world \<Rightarrow> ctx \<Rightarrow> string \<Rightarrow> error + string" where
  "source_name_of_disassembled_class w c fn =
     (case relpath (cwd w) fn (wd c) of
        Inl e \<Rightarrow> Inl e
      | Inr r \<Rightarrow>
          (case drop 1 (split_on CHR ''/'' r) of
             [] \<Rightarrow> Inl TypeError
           | x # xs \<Rightarrow> Inr (path_join x xs)))"

text \<open>\<open>Context.dalvik_type_of_disassembled_class\<close>.\<close>

definition dalvik_type_of_disassembled_class ::
  "'f world \<Rightarrow> ctx \<Rightarrow> string \<Rightarrow> error + string" where
  "dalvik_type_of_disassembled_class w c fn =
     (case source_name_of_disassembled_class w c fn of
        Inl e \<Rightarrow> Inl e
      | Inr s \<Rightarrow> Inr (''L'' @ py_replace s ''.smali'' [] @ '';''))"

text \<open>
  The command line of the disassembler in \<open>Context.analyze\<close>, and the texts of the
  class files, read in order; the first file that cannot be read raises.
\<close>

definition apktool_command :: "'f ext \<Rightarrow> bool \<Rightarrow> string \<Rightarrow> string \<Rightarrow> string" where
  "apktool_command E skip_resources d a =
     ''java -jar '' @ apktool_jar E @ '' d -f'' @ (if skip_resources then ''r'' else [])
       @ ''o '' @ d @ '' '' @ a"

fun read_all :: "'f world \<Rightarrow> string list \<Rightarrow> error + string list" where
  "read_all w [] = Inr []"
| "read_all w (fn # fns) =
     (case read_text w fn of
        Inl e \<Rightarrow> Inl e
      | Inr t \<Rightarrow> (case read_all w fns of Inl e \<Rightarrow> Inl e | Inr ts \<Rightarrow> Inr (t # ts)))"

text \<open>
  \<open>Context.analyze\<close>. The result is the exception raised, if any, with the context and
  the world as the call leaves them. An \<open>OSError\<close> of \<open>os.makedirs\<close> is swallowed;
  otherwise the disassembler runs, the store is opened (a cached value that is no store
  cannot be entered by \<open>with\<close>) and the parser is handed the texts of all class
  files, joined by newlines.
\<close>

definition analyze ::
  "'f ext \<Rightarrow> string \<Rightarrow> bool \<Rightarrow> ctx \<Rightarrow> 'f world \<Rightarrow> error option \<times> ctx \<times> 'f world" where
  "analyze E a skip_resources c w =
     (case wd c of
        Some d \<Rightarrow> (Some (ValueError ''analyzed once''), c, w)
      | None \<Rightarrow>
          (let c1 = c\<lparr>apk := Some a\<rparr>
           in case workdir_of w a of
                Inl e \<Rightarrow> (Some e, c1, w)
              | Inr d \<Rightarrow>
                  (let c2 = c1\<lparr>wd := Some d\<rparr>
                   in case makedirs w d of
                        Inl e \<Rightarrow> (if e = OSError then None else Some e, c2, w)
                      | Inr w1 \<Rightarrow>
                          (let w2 = os_system E (apktool_command E skip_resources d a) w1
                           in case store c2 of
                                (Inl e, c3) \<Rightarrow> (Some e, c3, w2)
                              | (Inr h, c3) \<Rightarrow>
                                  (if \<not> is_store h then (Some TypeError, c3, w2)
                                   else case disassembled_classes w2 c3 of
                                     (Inl e, c4) \<Rightarrow> (Some e, c4, w2)
                                   | (Inr (PyList fns), c4) \<Rightarrow>
                                       (case read_all w2 fns of
                                          Inl e \<Rightarrow> (Some e, c4, w2)
                                        | Inr texts \<Rightarrow>
                                            (let (r, w3) = smali_analyze E h (join_with (CHR 0x0A) texts) w2
                                             in (r, c4, w3)))
                                   | (Inr v, c4) \<Rightarrow> (Some TypeError, c4, w2))))))"

section \<open>Regular expressions (re.match)\<close>

text \<open>
  The search command is modelled for any matcher: a function from pattern and subject
  to the truth of \<open>re.match(pat, s)\<close>, or to the exception it raises. One concrete
  matcher is given for a fragment of Python's syntax, enough to run the default
  pattern: a sequence of atoms, each a literal character or \<open>.\<close> (any character but a
  newline), each optionally followed by \<open>*\<close>. \<open>re.match\<close> anchors at the start
  only, so the rest of the subject is free. A pattern with any other operator, valid in
  Python or not, is outside the fragment and yields \<open>ReError\<close> here; only results on
  patterns of the fragment are read as results of the program.
\<close>

datatype re_atom = Lit char | AnyChar

datatype re_item = One re_atom | Star re_atom

definition re_special :: "char \<Rightarrow> bool" where
  "re_special c = (c \<in> set ''.^$*+?{}[]|()'' \<or> c = CHR 0x5C)"

definition re_atom_of :: "char \<Rightarrow> re_atom option" where
  "re_atom_of c = (if c = CHR ''.'' then Some AnyChar else if re_special c then None else Some (Lit c))"

fun re_parse :: "string \<Rightarrow> re_item list option" where
  "re_parse [] = Some []"
| "re_parse (c # cs) =
     (case re_atom_of c of
        None \<Rightarrow> None
      | Some a \<Rightarrow>
          (if cs \<noteq> [] \<and> hd cs = CHR ''*''
           then map_option (\<lambda>r. Star a # r) (re_parse (tl cs))
           else map_option (\<lambda>r. One a # r) (re_parse cs)))"

fun atom_matches :: "re_atom \<Rightarrow> char \<Rightarrow> bool" where
  "atom_matches (Lit a) c = (a = c)"
| "atom_matches AnyChar c = (c \<noteq> CHR 0x0A)"

fun items_match :: "re_item list \<Rightarrow> string \<Rightarrow> bool" where
  "items_match [] s = True"
| "items_match (One a # r) [] = False"
| "items_match (One a # r) (c # s) = (atom_matches a c \<and> items_match r s)"
| "items_match (Star a # r) [] = items_match r []"
| "items_match (Star a # r) (c # s) =
     (items_match r (c # s) \<or> (atom_matches a c \<and> items_match (Star a # r) s))"

definition re_match :: "string \<Rightarrow> string \<Rightarrow> error + bool" where
  "re_match pat s =
     (case re_parse pat of
        None \<Rightarrow> Inl ReError
      | Some items \<Rightarrow> Inr (items_match items s))"

section \<open>SearchCommand (search.py)\<close>

text \<open>
  \<open>SearchCommand._search_defined_package\<close>. The command helper is not among the
  sources: \<open>self._helper.require_target()\<close> is taken to pass, and \<open>c\<close> is the
  analysed context that \<open>self._helper.get_context().require_type('apk').analyze()\<close>
  hands back. The result is the exception raised, if any, the lines given to
  \<open>ui.info\<close> in order, and the context with what the call memoized.

  The set of packages is kept as a list without duplicates; \<open>sorted\<close> orders it, and
  strings compare character by character, a proper prefix first.
\<close>

fun add_packages :: "'f world \<Rightarrow> ctx \<Rightarrow> string list \<Rightarrow> string list \<Rightarrow> error + string list" where
  "add_packages w c [] packages = Inr packages"
| "add_packages w c (r # rs) packages =
     (case source_name_of_disassembled_class w c r of
        Inl e \<Rightarrow> Inl e
      | Inr fn \<Rightarrow>
          add_packages w c rs
            (if endswith fn ''.smali'' then List.insert (dirname fn) packages else packages))"

fun emit_packages ::
  "(string \<Rightarrow> string \<Rightarrow> error + bool) \<Rightarrow> string \<Rightarrow> string list \<Rightarrow> error option \<times> string list" where
  "emit_packages m pat [] = (None, [])"
| "emit_packages m pat (pkg # pkgs) =
     (case m pat pkg of
        Inl e \<Rightarrow> (Some e, [])
      | Inr b \<Rightarrow>
          (let (r, out) = emit_packages m pat pkgs
           in (r, if b then pkg # out else out)))"

definition search_defined_package ::
  "(string \<Rightarrow> string \<Rightarrow> error + bool) \<Rightarrow> 'f world \<Rightarrow> ctx \<Rightarrow> string list
     \<Rightarrow> error option \<times> string list \<times> ctx" where
  "search_defined_package m w c args =
     (case args of
        [] \<Rightarrow> (Some IndexError, [], c)
      | cmd # rest \<Rightarrow>
          (let pat = (case rest of [] \<Rightarrow> ''.'' | p # ps \<Rightarrow> p);
               header = ''searching packages defining class: '' @ pat
           in case disassembled_classes w c of
                (Inl e, c') \<Rightarrow> (Some e, [header], c')
              | (Inr (PyList rs), c') \<Rightarrow>
                  (case add_packages w c' rs [] of
                     Inl e \<Rightarrow> (Some e, [header], c')
                   | Inr packages \<Rightarrow>
                       (let (r, out) = emit_packages m pat (sort packages)
                        in (r, header # out, c')))
              | (Inr v, c') \<Rightarrow> (Some TypeError, [header], c')))"

section \<open>ConfigCommand (config.py)\<close>

text \<open>
  The command helper and the \<open>ui\<close> module are not among the sources. The helper is a
  state \<open>'h\<close> with its two operations taken as they are called: \<open>get_config\<close>
  returns a value or raises, \<open>set_config\<close> may raise, and either may change the
  helper. \<open>ui.fatal(msg)\<close> does not return: it raises \<open>FatalError msg\<close>.
\<close>

record 'h helper_ops =
  get_config :: "'h \<Rightarrow> string \<Rightarrow> (error + pyval) \<times> 'h"
  set_config :: "'h \<Rightarrow> string \<Rightarrow> pyval \<Rightarrow> error option \<times> 'h"

record 'h config_command =
  helper :: 'h
  stash :: "string \<rightharpoonup> pyval"

text \<open>The handler \<open>except InvalidConfigKeyError: ui.fatal(f'unknown key: {k}')\<close>.\<close>

definition unknown_key :: "string \<Rightarrow> error \<Rightarrow> error" where
  "unknown_key k e = (if e = InvalidConfigKeyError then FatalError (''unknown key: '' @ k) else e)"

text \<open>
  \<open>ConfigCommand._mod\<close>. The result is the exception raised, if any, and the command
  object as the call leaves it. \<open>k, v = val.split('=')\<close> raises \<open>ValueError\<close> unless
  there are exactly two parts; the \<open>finally\<close> clause of the \<open>end\<close> branch unbinds
  the key whatever \<open>set_config\<close> does.
\<close>

definition config_mod ::
  "'h helper_ops \<Rightarrow> string \<Rightarrow> string \<Rightarrow> 'h config_command \<Rightarrow> error option \<times> 'h config_command" where
  "config_mod ops ev val s =
     (if CHR ''='' \<notin> set val then (Some (FatalError ''need a value''), s)
      else case split_on CHR ''='' val of
        [k, v] \<Rightarrow>
          (if ev = ''begin'' then
             (if k \<in> dom (stash s)
              then (Some (FatalError (''config key is already bound: '' @ k)), s)
              else case get_config ops (helper s) k of
                (Inl e, h1) \<Rightarrow> (Some (unknown_key k e), s\<lparr>helper := h1\<rparr>)
              | (Inr ov, h1) \<Rightarrow>
                  (case set_config ops h1 k (PyStr v) of
                     (Some e, h2) \<Rightarrow> (Some (unknown_key k e), s\<lparr>helper := h2\<rparr>)
                   | (None, h2) \<Rightarrow> (None, s\<lparr>helper := h2, stash := (stash s)(k \<mapsto> ov)\<rparr>)))
           else if ev = ''end'' then
             (case stash s k of
                None \<Rightarrow> (Some AssertionError, s)
              | Some ov \<Rightarrow>
                  (let (r, h1) = set_config ops (helper s) k ov
                   in (map_option (unknown_key k) r,
                       s\<lparr>helper := h1, stash := (stash s)(k := None)\<rparr>)))
           else (None, s))
      | _ \<Rightarrow> (Some (ValueError ''too many values to unpack (expected 2)''), s))"

section \<open>Well-formed paths and trees\<close>

text \<open>
  The names a directory can hold: not empty, no slash, neither \<open>.\<close> nor \<open>..\<close>. An
  absolute path in normal form is \<open>/\<close> followed by such names, joined by slashes.
\<close>

definition clean_name :: "string \<Rightarrow> bool" where
  "clean_name s = (s \<noteq> [] \<and> CHR ''/'' \<notin> set s \<and> s \<noteq> ''.'' \<and> s \<noteq> ''..'')"

definition abs_path :: "string list \<Rightarrow> string" where
  "abs_path segs = ''/'' @ join_with CHR ''/'' segs"

fun wf_node :: "fsnode \<Rightarrow> bool" where
  "wf_node (Dir es) = (\<forall>e \<in> set es. clean_name (fst e) \<and> wf_node (snd e))"
| "wf_node _ = True"

text \<open>Whether some entry below a node that is not a directory has a name \<open>keep\<close> accepts.\<close>

fun has_file :: "(string \<Rightarrow> bool) \<Rightarrow> fsnode \<Rightarrow> bool" where
  "has_file keep (Dir es) =
     (\<exists>e \<in> set es. (\<not> is_dir_node (snd e) \<and> keep (fst e)) \<or> has_file keep (snd e))"
| "has_file keep _ = False"

section \<open>Queries\<close>

text \<open>
  Modelled from the spec: the query operations of \<open>trueseeing.store\<close> are not among
  the sources. The spec has each of them read the Fact Store only, so a query is a
  function \<open>q\<close> of the content of the store that \<open>Context.store\<close> hands out.
\<close>

definition query :: "('f list \<Rightarrow> 'r) \<Rightarrow> 'f world \<Rightarrow> ctx \<Rightarrow> error + 'r" where
  "query q w c =
     (case fst (store c) of
        Inl e \<Rightarrow> Inl e
      | Inr h \<Rightarrow> (case store_content w h of Inl e \<Rightarrow> Inl e | Inr facts \<Rightarrow> Inr (q facts)))"

section \<open>A sample world\<close>

text \<open>
  A home directory that holds the cache directory of a package whose manifest-integrity
  file reads \<open>abc\<close>, already disassembled into two roots and indexed; a copy of that
  directory under the short name \<open>/w\<close>; and three archives: the package, another one
  with the same manifest-integrity file, and one without any.
\<close>

definition ex_wd :: string where
  "ex_wd = ''/home/u/.trueseeing2/ba/78/16bf8f01cfea414140de5dae2223b00361a396177a9cb410ff61f20015ad''"

definition ex_cache :: fsnode where
  "ex_cache =
     Dir [(''smali'', Dir [(''B.smali'', File ''.class public LB;''),
                           (''a'', Dir [(''C.smali'', File ''.class public La/C;'')])]),
          (''smali_classes2'', Dir [(''a'', Dir [(''C.smali'', File ''.class public La/C;'')])]),
          (''res'', Dir [(''values'', Dir [(''strings.xml'', File ''<resources/>'')]),
                         (''layout'', Dir [(''main.xml'', File ''<LinearLayout/>'')])]),
          (''AndroidManifest.xml'', File ''<manifest/>'')]"

definition ex_tree :: fsnode where
  "ex_tree =
     Dir [(''home'', Dir [(''u'', Dir [(''.trueseeing2'', Dir [(''ba'', Dir [(''78'',
            Dir [(''16bf8f01cfea414140de5dae2223b00361a396177a9cb410ff61f20015ad'', ex_cache)])])]),
                                       (''empty'', Dir [])])]),
          (''w'', ex_cache),
          (''t.apk'', Zip [(''META-INF/MANIFEST.MF'', ''abc''), (''classes.dex'', ''dex'')]),
          (''t2.apk'', Zip [(''classes.dex'', ''other''), (''META-INF/MANIFEST.MF'', ''abc'')]),
          (''n.apk'', Zip [(''classes.dex'', ''dex'')])]"

definition ex_world :: "string world" where
  "ex_world =
     \<lparr>fs = ex_tree, cwd = ''/home/u'', environ = [''HOME'' \<mapsto> ''/home/u''],
      commands = [], parsed = [],
      stores = (\<lambda>d. if d = ex_wd then [''LB;'', ''La/C;''] else [])\<rparr>"

definition ex_ext :: "string ext" where
  "ex_ext = \<lparr>run_command = (\<lambda>cmd t. t), apktool_jar = ''libs/apktool.jar'',
             smali_facts = (\<lambda>text. Inr [text])\<rparr>"

definition ex_ctx :: ctx where
  "ex_ctx = Context\<lparr>apk := Some ''/t.apk'', wd := Some ex_wd\<rparr>"

definition ex_short :: ctx where
  "ex_short = Context\<lparr>apk := Some ''/t.apk'', wd := Some ''/w''\<rparr>"

text \<open>
  A helper whose configuration is a dictionary: reading or setting a key it does not
  hold raises \<open>InvalidConfigKeyError\<close>.
\<close>

definition ex_ops :: "(string \<rightharpoonup> pyval) helper_ops" where
  "ex_ops =
     \<lparr>get_config = (\<lambda>h k. (case h k of None \<Rightarrow> Inl InvalidConfigKeyError | Some v \<Rightarrow> Inr v, h)),
      set_config = (\<lambda>h k v. case h k of None \<Rightarrow> (Some InvalidConfigKeyError, h)
                                       | Some u \<Rightarrow> (None, h(k \<mapsto> v)))\<rparr>"

definition ex_cmd :: "(string \<rightharpoonup> pyval) config_command" where
  "ex_cmd = \<lparr>helper = [''debug'' \<mapsto> PyBool False], stash = Map.empty\<rparr>"

section \<open>Properties of strings and paths\<close>

subsection \<open>split and join\<close>

lemma split_on_no_sep: "c \<notin> set s \<Longrightarrow> split_on c s = [s]"
  by (induction s) auto

lemma split_on_append_sep:
  "c \<notin> set s \<Longrightarrow> split_on c (s @ c # t) = s # split_on c t"
  by (induction s) auto

lemma split_on_nonempty [simp]: "split_on c s \<noteq> []"
  by (induction s) (auto split: list.splits)

lemma split_on_sep_append:
  "split_on c (s @ c # t) = split_on c s @ split_on c t"
  by (induction s) (auto split: list.splits)

lemma split_join:
  "xs \<noteq> [] \<Longrightarrow> \<forall>s \<in> set xs. c \<notin> set s \<Longrightarrow> split_on c (join_with c xs) = xs"
proof (induction xs rule: join_with.induct)
  case (1 c)
  then show ?case by simp
next
  case (2 c x)
  then show ?case by (simp add: split_on_no_sep)
next
  case (3 c x y ys)
  then show ?case by (simp add: split_on_append_sep)
qed

lemma join_with_Cons:
  "ys \<noteq> [] \<Longrightarrow> join_with c (x # ys) = x @ c # join_with c ys"
  by (cases ys) auto

lemma join_with_snoc:
  "xs \<noteq> [] \<Longrightarrow> join_with c (xs @ [y]) = join_with c xs @ c # y"
  by (induction xs rule: join_with.induct) auto

lemma join_with_append:
  "xs \<noteq> [] \<Longrightarrow> ys \<noteq> [] \<Longrightarrow> join_with c (xs @ ys) = join_with c xs @ c # join_with c ys"
  by (induction xs rule: join_with.induct) (auto simp: join_with_Cons)

lemma join_with_nonempty:
  "xs \<noteq> [] \<Longrightarrow> \<forall>s \<in> set xs. s \<noteq> [] \<Longrightarrow> join_with c xs \<noteq> []"
  by (induction xs rule: join_with.induct) auto

lemma join_with_nonempty_last:
  "xs \<noteq> [] \<Longrightarrow> last xs \<noteq> [] \<Longrightarrow> join_with c xs \<noteq> []"
  by (induction c xs rule: join_with.induct) auto

lemma last_join_with:
  "xs \<noteq> [] \<Longrightarrow> last xs \<noteq> [] \<Longrightarrow> last (join_with c xs) = last (last xs)"
proof (induction c xs rule: join_with.induct)
  case (3 c x y ys)
  then have "join_with c (y # ys) \<noteq> []"
    using join_with_nonempty_last [of "y # ys" c] by simp
  with 3 show ?case by simp
qed simp_all

lemma hd_join_with:
  "xs \<noteq> [] \<Longrightarrow> hd xs \<noteq> [] \<Longrightarrow> hd (join_with c xs) = hd (hd xs)"
  by (induction c xs rule: join_with.induct) auto

subsection \<open>join2\<close>

lemma startswith_sep: "startswith b ''/'' \<longleftrightarrow> (b \<noteq> [] \<and> hd b = CHR ''/'')"
  by (cases b) (auto simp: startswith_def)

lemma endswith_sep: "endswith a ''/'' \<longleftrightarrow> (a \<noteq> [] \<and> last a = CHR ''/'')"
proof (cases a rule: rev_cases)
  case Nil
  then show ?thesis by (simp add: endswith_def)
next
  case (snoc ys y)
  then show ?thesis by (auto simp: endswith_def)
qed

lemma join2_plain:
  "a \<noteq> [] \<Longrightarrow> last a \<noteq> CHR ''/'' \<Longrightarrow> CHR ''/'' \<notin> set b \<Longrightarrow> join2 a b = a @ ''/'' @ b"
  by (cases b) (auto simp: join2_def startswith_sep endswith_sep)

lemma join2_after_sep:
  "a \<noteq> [] \<Longrightarrow> last a = CHR ''/'' \<Longrightarrow> CHR ''/'' \<notin> set b \<Longrightarrow> join2 a b = a @ b"
  by (cases b) (auto simp: join2_def startswith_sep endswith_sep)

lemma join2_last: "b \<noteq> [] \<Longrightarrow> last (join2 a b) = last b"
  by (auto simp: join2_def)

lemma join2_nonempty: "b \<noteq> [] \<Longrightarrow> join2 a b \<noteq> []"
  by (auto simp: join2_def)

lemma clean_nameD:
  "clean_name s \<Longrightarrow> s \<noteq> [] \<and> CHR ''/'' \<notin> set s \<and> s \<noteq> ''.'' \<and> s \<noteq> ''..'' \<and> last s \<noteq> CHR ''/''"
  unfolding clean_name_def using last_in_set by metis

lemma path_join_clean:
  "a \<noteq> [] \<Longrightarrow> last a \<noteq> CHR ''/'' \<Longrightarrow> \<forall>s \<in> set xs. clean_name s \<Longrightarrow>
   path_join a xs = join_with CHR ''/'' (a # xs)"
proof (induction xs arbitrary: a)
  case Nil
  then show ?case by (simp add: path_join_def)
next
  case (Cons x xs)
  have x: "x \<noteq> []" "CHR ''/'' \<notin> set x" "last x \<noteq> CHR ''/''"
    using Cons.prems(3) clean_nameD by auto
  have j: "join2 a x = a @ ''/'' @ x"
    using Cons.prems x by (simp add: join2_plain)
  have "path_join a (x # xs) = path_join (a @ ''/'' @ x) xs"
    by (simp add: path_join_def j)
  also have "\<dots> = join_with CHR ''/'' ((a @ ''/'' @ x) # xs)"
    using Cons.prems x by (intro Cons.IH) auto
  also have "\<dots> = join_with CHR ''/'' (a # x # xs)"
    by (cases xs) auto
  finally show ?case .
qed

subsection \<open>normpath on paths in normal form\<close>

lemma norm_comps_clean:
  "\<forall>s \<in> set xs. clean_name s \<Longrightarrow> norm_comps sl acc xs = acc @ xs"
  by (induction xs arbitrary: acc) (auto simp: clean_name_def)

lemma norm_comps_append_aux:
  "norm_comps sl acc (xs @ ys) = norm_comps sl (norm_comps sl acc xs) ys"
  by (induction sl acc xs rule: norm_comps.induct) auto

lemma norm_comps_clean_Cons:
  "\<forall>s \<in> set xs. clean_name s \<Longrightarrow> norm_comps sl [] ([] # xs) = xs"
  using norm_comps_clean [of xs sl "[]"] by simp

lemma norm_comps_clean_slash:
  "\<forall>s \<in> set xs. clean_name s \<Longrightarrow> norm_comps sl [] ([] # xs @ [[]]) = xs"
proof -
  assume a: "\<forall>s \<in> set xs. clean_name s"
  have "norm_comps sl [] ([] # xs @ [[]]) = norm_comps sl [] (([] # xs) @ [[]])" by simp
  also have "\<dots> = norm_comps sl (norm_comps sl [] ([] # xs)) [[]]"
    by (rule norm_comps_append_aux)
  also have "\<dots> = xs" using norm_comps_clean [OF a, of sl "[]"] by simp
  finally show ?thesis .
qed

lemma abs_path_Nil: "abs_path [] = ''/''"
  by (simp add: abs_path_def)

lemma abs_path_nonempty: "abs_path xs \<noteq> []"
  by (simp add: abs_path_def)

lemma clean_join_hd:
  assumes "xs \<noteq> []" "\<forall>s \<in> set xs. clean_name s"
  shows "hd (join_with CHR ''/'' xs) \<noteq> CHR ''/''"
proof -
  have "hd xs \<noteq> []" "CHR ''/'' \<notin> set (hd xs)"
    using assms clean_nameD by auto
  then show ?thesis
    using assms(1) hd_join_with [of xs "CHR ''/''"] hd_in_set by metis
qed

lemma initial_slashes_one:
  "j = [] \<or> hd j \<noteq> CHR ''/'' \<Longrightarrow> initial_slashes (CHR ''/'' # j) = 1"
  by (cases j) (auto simp: initial_slashes_def startswith_def)

lemma normpath_abs:
  assumes "\<forall>s \<in> set xs. clean_name s"
  shows "normpath (abs_path xs) = abs_path xs"
proof (cases "xs = []")
  case True
  then show ?thesis
    by (simp add: abs_path_def normpath_def initial_slashes_one)
next
  case False
  let ?j = "join_with CHR ''/'' xs"
  have nosep: "\<forall>s \<in> set xs. CHR ''/'' \<notin> set s"
    using assms clean_nameD by blast
  have sl: "initial_slashes (CHR ''/'' # ?j) = 1"
    using clean_join_hd [OF False assms] by (simp add: initial_slashes_one)
  have sp: "split_on CHR ''/'' (CHR ''/'' # ?j) = [] # xs"
    using split_join [OF False nosep] by simp
  show ?thesis
    by (simp add: abs_path_def normpath_def sl sp norm_comps_clean_Cons [OF assms]
             del: split_on.simps norm_comps.simps)
qed

lemma path_list_abs:
  assumes "\<forall>s \<in> set xs. clean_name s"
  shows "path_list cw (abs_path xs) = xs"
proof -
  have ne: "\<forall>s \<in> set xs. s \<noteq> []" and nosep: "\<forall>s \<in> set xs. CHR ''/'' \<notin> set s"
    using assms clean_nameD by blast+
  have f: "filter (\<lambda>x. x \<noteq> []) xs = xs"
    using ne by (simp add: filter_id_conv)
  have a: "abspath cw (abs_path xs) = abs_path xs"
    by (simp add: abspath_def normpath_abs [OF assms]) (simp add: abs_path_def startswith_def)
  have pl: "path_list cw (abs_path xs) = filter (\<lambda>x. x \<noteq> []) (split_on CHR ''/'' (abs_path xs))"
    by (simp only: path_list_def a)
  show ?thesis
  proof (cases "xs = []")
    case True
    then show ?thesis unfolding pl by (simp add: abs_path_def)
  next
    case False
    have "split_on CHR ''/'' (abs_path xs) = [] # xs"
      using split_join [OF False nosep] by (simp add: abs_path_def)
    then show ?thesis by (simp add: pl f)
  qed
qed

lemma path_list_abs_slash:
  assumes "\<forall>s \<in> set xs. clean_name s" "xs \<noteq> []"
  shows "path_list cw (abs_path xs @ ''/'') = xs"
proof -
  let ?j = "join_with CHR ''/'' xs"
  have ne: "\<forall>s \<in> set xs. s \<noteq> []" and nosep: "\<forall>s \<in> set xs. CHR ''/'' \<notin> set s"
    using assms clean_nameD by blast+
  have f: "filter (\<lambda>x. x \<noteq> []) xs = xs"
    using ne by (simp add: filter_id_conv)
  have jne: "?j \<noteq> []"
    using join_with_nonempty [OF assms(2) ne] .
  have sl: "initial_slashes (CHR ''/'' # ?j @ ''/'') = 1"
    using clean_join_hd [OF assms(2,1)] jne by (intro initial_slashes_one) simp
  have "split_on CHR ''/'' (CHR ''/'' # ?j @ ''/'') = [] # split_on CHR ''/'' (?j @ CHR ''/'' # [])"
    by simp
  also have "\<dots> = [] # split_on CHR ''/'' ?j @ split_on CHR ''/'' []"
    by (simp only: split_on_sep_append)
  also have "\<dots> = [] # xs @ [[]]"
    using split_join [OF assms(2) nosep] by simp
  finally have sp: "split_on CHR ''/'' (CHR ''/'' # ?j @ ''/'') = [] # xs @ [[]]" .
  have n: "normpath (abs_path xs @ ''/'') = abs_path xs"
    by (simp add: abs_path_def normpath_def sl sp norm_comps_clean_slash [OF assms(1)]
             del: split_on.simps norm_comps.simps)
  have a: "abspath cw (abs_path xs @ ''/'') = abs_path xs"
    by (simp add: abspath_def n) (simp add: abs_path_def startswith_def)
  have "split_on CHR ''/'' (abs_path xs) = [] # xs"
    using split_join [OF assms(2) nosep] by (simp add: abs_path_def)
  then show ?thesis by (simp add: path_list_def a f)
qed

lemma common_len_append: "common_len xs (xs @ ys) = length xs"
  by (induction xs) auto

lemma abs_path_last:
  assumes "\<forall>s \<in> set xs. clean_name s" "xs \<noteq> []"
  shows "last (abs_path xs) \<noteq> CHR ''/''"
proof -
  have "last xs \<in> set xs" using assms(2) by simp
  then have l: "last xs \<noteq> []" "last (last xs) \<noteq> CHR ''/''"
    using assms(1) clean_nameD by blast+
  have "join_with CHR ''/'' xs \<noteq> []"
    using assms clean_nameD join_with_nonempty by blast
  then have "last (abs_path xs) = last (join_with CHR ''/'' xs)"
    by (simp add: abs_path_def)
  then show ?thesis
    using last_join_with [OF assms(2) l(1)] l(2) by simp
qed

lemma abs_path_snoc:
  "xs \<noteq> [] \<Longrightarrow> abs_path (xs @ [y]) = abs_path xs @ ''/'' @ y"
  by (simp add: abs_path_def join_with_snoc)

lemma abs_path_append:
  "xs \<noteq> [] \<Longrightarrow> ys \<noteq> [] \<Longrightarrow> abs_path (xs @ ys) = abs_path xs @ ''/'' @ join_with CHR ''/'' ys"
  by (simp add: abs_path_def join_with_append)

subsection \<open>relpath and the source name\<close>

lemma relpath_clean:
  assumes "\<forall>s \<in> set (ds @ ys). clean_name s" "ys \<noteq> []"
  shows "relpath cw (abs_path (ds @ ys)) (Some (abs_path ds)) = Inr (join_with CHR ''/'' ys)"
proof -
  obtain r rs where ys: "ys = r # rs" using assms(2) by (cases ys) auto
  have c1: "\<forall>s \<in> set ds. clean_name s" and c2: "\<forall>s \<in> set rs. clean_name s" and r: "clean_name r"
    using assms(1) ys by auto
  have p1: "path_list cw (abs_path ds) = ds" by (rule path_list_abs [OF c1])
  have p2: "path_list cw (abs_path (ds @ ys)) = ds @ ys" by (rule path_list_abs [OF assms(1)])
  have j: "path_join r rs = join_with CHR ''/'' ys"
    unfolding ys using r c2 clean_nameD by (intro path_join_clean) auto
  have rl: "replicate (length ds - common_len ds (ds @ ys)) ''..''
            @ drop (common_len ds (ds @ ys)) (ds @ ys) = r # rs"
    by (simp add: common_len_append ys)
  show ?thesis
    unfolding relpath_def Let_def option.case p1 p2 rl list.case j
    by (simp add: abs_path_nonempty)
qed

lemma source_name_clean:
  assumes "\<forall>s \<in> set (ds @ root # segs). clean_name s" "segs \<noteq> []" "wd c = Some (abs_path ds)"
  shows "source_name_of_disassembled_class w c (abs_path (ds @ root # segs)) =
         Inr (join_with CHR ''/'' segs)"
proof -
  obtain x xs where segs: "segs = x # xs" using assms(2) by (cases segs) auto
  have nosep: "\<forall>s \<in> set (root # segs). CHR ''/'' \<notin> set s"
    using assms(1) clean_nameD by auto
  have cx: "clean_name x" "\<forall>s \<in> set xs. clean_name s"
    using assms(1) segs by auto
  have rp: "relpath (cwd w) (abs_path (ds @ root # segs)) (Some (abs_path ds)) =
            Inr (join_with CHR ''/'' (root # segs))"
    using relpath_clean [OF assms(1)] by simp
  have sp: "split_on CHR ''/'' (join_with CHR ''/'' (root # segs)) = root # segs"
    using split_join [OF _ nosep] by simp
  have j: "path_join x xs = join_with CHR ''/'' (x # xs)"
    using cx clean_nameD by (intro path_join_clean) auto
  show ?thesis
    by (simp add: source_name_of_disassembled_class_def assms(3) rp sp del: join_with.simps)
       (simp add: segs j)
qed

subsection \<open>The digest\<close>

lemma hex_digit_set: "hex_digit n \<in> set ''0123456789abcdef''"
  unfolding hex_digit_def by (rule nth_mem) simp

lemma hex_digit_not_sep: "hex_digit n \<noteq> CHR ''/''" "CHR ''/'' \<noteq> hex_digit n"
  using hex_digit_set [of n] by auto

lemma length_hex32: "length (hex32 x) = 8"
  by (simp add: hex32_def)

lemma sep_notin_hex32: "CHR ''/'' \<notin> set (hex32 x)"
  by (simp add: hex32_def hex_digit_not_sep)

lemma length_sha256_hex: "length (sha256_hex m) = 64"
  by (cases "sha256 m" rule: hexdigest.cases) (simp add: sha256_hex_def length_hex32)

lemma sep_notin_sha256_hex: "CHR ''/'' \<notin> set (sha256_hex m)"
  by (cases "sha256 m" rule: hexdigest.cases) (simp add: sha256_hex_def sep_notin_hex32)

text \<open>The digest of \<open>abc\<close>, one of the test vectors of the standard.\<close>

lemma sha256_hex_abc:
  "sha256_hex ''abc'' = ''ba7816bf8f01cfea414140de5dae2223b00361a396177a9cb410ff61f20015ad''"
  by code_simp

lemma workdir_layout:
  assumes "length h = 64" and "CHR ''/'' \<notin> set h"
  shows "path_join home [''.trueseeing2'', take 2 h, take 2 (drop 2 h), drop 4 h] =
         join_with CHR ''/'' [join2 home ''.trueseeing2'', take 2 h, take 2 (drop 2 h), drop 4 h]"
proof -
  let ?r = "join2 home ''.trueseeing2''"
  have r: "?r \<noteq> []" "last ?r \<noteq> CHR ''/''"
    by (simp_all add: join2_nonempty join2_last)
  have n1: "take 2 h \<noteq> []" and n2: "take 2 (drop 2 h) \<noteq> []" and n3: "drop 4 h \<noteq> []"
    using assms(1) by auto
  have s1: "CHR ''/'' \<notin> set (take 2 h)" and s2: "CHR ''/'' \<notin> set (take 2 (drop 2 h))"
    and s3: "CHR ''/'' \<notin> set (drop 4 h)"
    using assms(2) by (auto dest: in_set_takeD in_set_dropD)
  have l1: "last (take 2 h) \<noteq> CHR ''/''" using n1 s1 last_in_set by metis
  have l2: "last (take 2 (drop 2 h)) \<noteq> CHR ''/''" using n2 s2 last_in_set by metis
  have j1: "join2 ?r (take 2 h) = ?r @ ''/'' @ take 2 h"
    by (rule join2_plain [OF r s1])
  have j2: "join2 (?r @ ''/'' @ take 2 h) (take 2 (drop 2 h)) =
            (?r @ ''/'' @ take 2 h) @ ''/'' @ take 2 (drop 2 h)"
    by (rule join2_plain) (use n1 l1 s2 in auto)
  have j3: "join2 ((?r @ ''/'' @ take 2 h) @ ''/'' @ take 2 (drop 2 h)) (drop 4 h) =
            ((?r @ ''/'' @ take 2 h) @ ''/'' @ take 2 (drop 2 h)) @ ''/'' @ drop 4 h"
    by (rule join2_plain) (use n2 l2 s3 in auto)
  have "path_join home [''.trueseeing2'', take 2 h, take 2 (drop 2 h), drop 4 h] =
        join2 (join2 (join2 ?r (take 2 h)) (take 2 (drop 2 h))) (drop 4 h)"
    by (simp add: path_join_def)
  also have "\<dots> = ((?r @ ''/'' @ take 2 h) @ ''/'' @ take 2 (drop 2 h)) @ ''/'' @ drop 4 h"
    by (simp only: j1 j2 j3)
  also have "\<dots> = join_with CHR ''/'' [?r, take 2 h, take 2 (drop 2 h), drop 4 h]"
    by simp
  finally show ?thesis .
qed

subsection \<open>The file tree\<close>

lemma resolve_abs:
  "\<forall>s \<in> set xs. clean_name s \<Longrightarrow> resolve w (abs_path xs) = lookup_node (fs w) xs"
  by (simp add: resolve_def path_list_abs abs_path_nonempty)

lemma lookup_node_mk_path: "lookup_node n ss = Some m \<Longrightarrow> mk_path ss n = None"
proof (induction ss arbitrary: n)
  case Nil
  then show ?case by simp
next
  case (Cons s ss)
  then show ?case by (cases n) (auto split: option.splits)
qed

lemma isdir_makedirs: "isdir w d \<Longrightarrow> makedirs w d = Inl OSError"
  by (auto simp: isdir_def makedirs_def resolve_def lookup_node_mk_path
           split: option.splits fsnode.splits if_splits)

subsection \<open>Analysis\<close>

text \<open>
  The first call binds the working directory as soon as it has derived it, before
  anything can fail on the disk.
\<close>

lemma analyze_binds_wd:
  assumes "wd c = None" and "workdir_of w a = Inr d"
  shows "wd (fst (snd (analyze E a skip_resources c w))) = Some d"
  using assms
  by (auto simp: analyze_def Let_def store_def Store_def disassembled_classes_def memoized_def
           split: sum.splits option.splits prod.splits pyval.splits if_splits)

lemma analyze_cached:
  assumes "wd c = None" and "workdir_of w a = Inr d" and "isdir w d"
  shows "analyze E a skip_resources c w = (None, c\<lparr>apk := Some a, wd := Some d\<rparr>, w)"
  using assms by (simp add: analyze_def isdir_makedirs)

lemma query_store:
  assumes "wd c = Some d" and "state c ''ts2.store'' = None \<or> state c ''ts2.store'' = Some (Store d)"
  shows "query q w c = Inr (q (stores w d))"
  using assms by (auto simp: query_def store_def Store_def)

lemma first_run_context:
  assumes "workdir_of w a = Inr d" and "makedirs w d = Inr w1"
  shows "wd (fst (snd (analyze E a skip_resources Context w))) = Some d \<and>
         state (fst (snd (analyze E a skip_resources Context w))) ''ts2.store'' = Some (Store d)"
  using assms
  by (auto simp: analyze_def Context_def Let_def store_def Store_def disassembled_classes_def
                 memoized_def
           split: sum.splits option.splits prod.splits pyval.splits if_splits)

text \<open>A first run that creates the cache directory runs the disassembler once.\<close>

lemma first_run_disassembles:
  assumes "wd c = None" and "workdir_of w a = Inr d" and "makedirs w d = Inr w1"
  shows "commands (snd (snd (analyze E a skip_resources c w))) =
           commands w @ [apktool_command E skip_resources d a]"
proof -
  have m: "commands w1 = commands w"
    using assms(3) by (auto simp: makedirs_def split: if_splits option.splits)
  show ?thesis
    using assms m
    by (auto simp: analyze_def Let_def os_system_def smali_analyze_def split_beta
             split: sum.splits option.splits prod.splits pyval.splits if_splits)
qed

text \<open>
  Two runs on one package: the first creates the cache directory, the second, from a new
  context, finds it and answers every query as the context of the first run does.
\<close>

lemma second_run_same_queries:
  assumes "workdir_of w a = Inr d" and "makedirs w d = Inr w0"
      and "analyze E a skip_resources Context w = (r1, c1, w1)"
      and "workdir_of w1 a = Inr d" and "isdir w1 d"
  shows "analyze E a skip_resources' Context w1 = (None, Context\<lparr>apk := Some a, wd := Some d\<rparr>, w1) \<and>
         query q w1 (Context\<lparr>apk := Some a, wd := Some d\<rparr>) = query q w1 c1"
proof -
  have c1: "wd c1 = Some d" "state c1 ''ts2.store'' = Some (Store d)"
    using first_run_context [OF assms(1,2), of E skip_resources] assms(3) by simp_all
  have fresh: "wd Context = None" by (simp add: Context_def)
  have run: "analyze E a skip_resources' Context w1 =
             (None, Context\<lparr>apk := Some a, wd := Some d\<rparr>, w1)"
    by (rule analyze_cached [OF fresh assms(4,5)])
  have "query q w1 (Context\<lparr>apk := Some a, wd := Some d\<rparr>) = Inr (q (stores w1 d))"
    by (rule query_store) (simp_all add: Context_def)
  moreover have "query q w1 c1 = Inr (q (stores w1 d))"
    using c1 by (intro query_store) auto
  ultimately show ?thesis using run by simp
qed

subsection \<open>Memoized listings\<close>

lemma memoized_hit: "state c key = Some v \<Longrightarrow> memoized key listing c = (Inr v, c)"
  by (simp add: memoized_def)

lemma memoized_binds: "state (snd (memoized key listing c)) key \<noteq> None"
  by (auto simp: memoized_def Let_def split: option.splits)

lemma memoized_again:
  assumes "fst (memoized key listing c) = Inr v"
  shows "memoized key listing' (snd (memoized key listing c)) = (Inr v, snd (memoized key listing c))"
  using assms by (auto simp: memoized_def Let_def split: option.splits)

subsection \<open>The config modifier\<close>

lemma split_on_two:
  "c \<notin> set k \<Longrightarrow> c \<notin> set v \<Longrightarrow> split_on c (k @ c # v) = [k, v]"
  by (simp add: split_on_append_sep split_on_no_sep)

subsection \<open>The package search\<close>

lemma memoized_wd: "wd (snd (memoized key listing c)) = wd c"
  by (auto simp: memoized_def Let_def split: option.splits)

lemma disassembled_classes_wd: "wd (snd (disassembled_classes w c)) = wd c"
  by (simp add: disassembled_classes_def memoized_wd)

lemma source_name_cong:
  "wd c' = wd c \<Longrightarrow>
   source_name_of_disassembled_class w c' = source_name_of_disassembled_class w c"
  by (rule ext) (simp add: source_name_of_disassembled_class_def)

lemma add_packages_props:
  assumes "add_packages w c rs acc = Inr pkgs" and "distinct acc"
  shows "distinct pkgs \<and>
         set pkgs = set acc \<union>
           {dirname fn | x fn. x \<in> set rs \<and> source_name_of_disassembled_class w c x = Inr fn
                               \<and> endswith fn ''.smali''}"
  using assms
proof (induction rs arbitrary: acc)
  case Nil
  then show ?case by simp
next
  case (Cons r rs)
  from Cons.prems(1) obtain fn where fn: "source_name_of_disassembled_class w c r = Inr fn"
    by (auto split: sum.splits)
  let ?acc = "if endswith fn ''.smali'' then List.insert (dirname fn) acc else acc"
  have step: "add_packages w c rs ?acc = Inr pkgs"
    using Cons.prems(1) fn by simp
  have d: "distinct ?acc" using Cons.prems(2) by simp
  from Cons.IH [OF step d] show ?case
    using fn by (auto split: if_splits)
qed

lemma emit_packages_props:
  assumes "emit_packages m pat pkgs = (r, out)" and "sorted_wrt (<) pkgs"
  shows "sorted_wrt (<) out \<and> set out \<subseteq> set pkgs \<and>
         (r = None \<longrightarrow> set out = {p \<in> set pkgs. m pat p = Inr True})"
  using assms
proof (induction pkgs arbitrary: r out)
  case Nil
  then show ?case by simp
next
  case (Cons p ps)
  show ?case
  proof (cases "m pat p")
    case (Inl e)
    with Cons.prems show ?thesis by auto
  next
    case (Inr b)
    obtain r' out' where e: "emit_packages m pat ps = (r', out')"
      by (cases "emit_packages m pat ps") auto
    have s: "sorted_wrt (<) ps" using Cons.prems(2) by simp
    note ih = Cons.IH [OF e s]
    have r: "r = r'" and out: "out = (if b then p # out' else out')"
      using Cons.prems(1) Inr e by auto
    have lt: "\<forall>x \<in> set out'. p < x"
      using Cons.prems(2) ih by auto
    show ?thesis
      using ih Inr lt by (auto simp: r out)
  qed
qed

lemma emit_packages_sorted:
  "sorted_wrt (<) pkgs \<Longrightarrow> sorted_wrt (<) (snd (emit_packages m pat pkgs))"
  using emit_packages_props [of m pat pkgs] by (cases "emit_packages m pat pkgs") auto

lemma sorted_wrt_sort_distinct:
  "distinct xs \<Longrightarrow> sorted_wrt (<) (sort xs)"
  by (simp add: strict_sorted_iff)

lemma add_packages_distinct:
  "add_packages w c rs [] = Inr pkgs \<Longrightarrow> distinct pkgs"
  using add_packages_props [of w c rs "[]" pkgs] by simp

lemma search_output_shape:
  "\<exists>pkgs. fst (snd (search_defined_package m w c (cmd # rest))) =
     (''searching packages defining class: '' @ (case rest of [] \<Rightarrow> ''.'' | p # ps \<Rightarrow> p))
     # snd (emit_packages m (case rest of [] \<Rightarrow> ''.'' | p # ps \<Rightarrow> p) pkgs)"
proof -
  let ?pat = "case rest of [] \<Rightarrow> ''.'' | p # ps \<Rightarrow> p"
  let ?hdr = "''searching packages defining class: '' @ ?pat"
  let ?out = "fst (snd (search_defined_package m w c (cmd # rest)))"
  have "?out = [?hdr] \<or> (\<exists>pkgs. ?out = ?hdr # snd (emit_packages m ?pat pkgs))"
    by (auto simp: search_defined_package_def Let_def split_beta
             split: prod.splits sum.splits pyval.splits)
  moreover have "[?hdr] = ?hdr # snd (emit_packages m ?pat [])" by simp
  ultimately show ?thesis by metis
qed

lemma emit_packages_no_empty:
  "m pat [] \<noteq> Inr True \<Longrightarrow> [] \<notin> set (snd (emit_packages m pat pkgs))"
proof (induction pkgs)
  case Nil
  then show ?case by simp
next
  case (Cons p ps)
  then show ?case
    by (cases "m pat p") (auto simp: split_beta)
qed

lemma dirname_no_sep: "CHR ''/'' \<notin> set f \<Longrightarrow> dirname f = []"
proof -
  assume "CHR ''/'' \<notin> set f"
  then have tw: "takeWhile (\<lambda>x. x \<noteq> CHR ''/'') (rev f) = rev f"
    by (auto simp: takeWhile_eq_all_conv)
  show ?thesis unfolding dirname_def path_split_def tw by simp
qed

lemma re_match_dot_empty: "re_match ''.'' [] = Inr False"
  by (simp add: re_match_def re_atom_of_def)

subsection \<open>find and replace\<close>

lemma replace_from_skip: "length xs \<le> k \<Longrightarrow> replace_from k old new xs = []"
  by (induction k old new xs rule: replace_from.induct) auto

lemma py_find_occurrence:
  "py_find s old = Some i \<Longrightarrow> i + length old \<le> length s \<and> take (length old) (drop i s) = old"
proof (induction s arbitrary: i)
  case Nil
  then show ?case by (auto split: if_splits)
next
  case (Cons x xs)
  show ?case
  proof (cases "startswith (x # xs) old")
    case True
    then have tk: "take (length old) (x # xs) = old" by (simp add: startswith_def)
    have "length (take (length old) (x # xs)) = length old" by (simp only: tk)
    then have le: "length old \<le> length (x # xs)" by simp
    have "i = 0" using Cons.prems True by simp
    then show ?thesis using tk le by simp
  next
    case False
    then obtain j where j: "py_find xs old = Some j" "i = Suc j"
      using Cons.prems by auto
    from Cons.IH [OF j(1)] show ?thesis by (simp add: j(2))
  qed
qed

lemma replace_suffix:
  "old \<noteq> [] \<Longrightarrow> py_find s old = Some i \<Longrightarrow> i + length old = length s \<Longrightarrow>
   replace_from 0 old [] s = take i s"
proof (induction s arbitrary: i)
  case Nil
  then show ?case by simp
next
  case (Cons x xs)
  show ?case
  proof (cases "startswith (x # xs) old")
    case True
    then have i: "i = 0" using Cons.prems(2) by simp
    then have "length xs \<le> length old - 1" using Cons.prems(3) by simp
    then show ?thesis using True i by (simp add: replace_from_skip)
  next
    case False
    then obtain j where j: "py_find xs old = Some j" "i = Suc j"
      using Cons.prems(2) by auto
    have "replace_from 0 old [] xs = take j xs"
      using Cons.prems(1,3) j by (intro Cons.IH) auto
    then show ?thesis using False j(2) by simp
  qed
qed

lemma strip_extension:
  assumes "py_find rel ''.smali'' = Some (length rel - 6)"
  shows "py_replace rel ''.smali'' [] = take (length rel - 6) rel \<and>
         rel = take (length rel - 6) rel @ ''.smali''"
proof -
  from py_find_occurrence [OF assms]
  have le: "length rel - 6 + 6 \<le> length rel"
   and tk: "take 6 (drop (length rel - 6) rel) = ''.smali''"
    by simp_all
  have eq: "length rel - 6 + length ''.smali'' = length rel" using le by simp
  have r: "replace_from 0 ''.smali'' [] rel = take (length rel - 6) rel"
    by (rule replace_suffix [OF _ assms eq]) simp
  have "drop (length rel - 6) rel = ''.smali''"
    using tk le by simp
  then have "rel = take (length rel - 6) rel @ ''.smali''"
    by (metis append_take_drop_id)
  then show ?thesis using r by (simp add: py_replace_def)
qed

subsection \<open>Listings of a tree without matching files\<close>

lemma path_split_plain:
  assumes "a \<noteq> []" and "last a \<noteq> CHR ''/''" and "CHR ''/'' \<notin> set b"
  shows "path_split (a @ CHR ''/'' # b) = (a, b)"
proof -
  let ?p = "a @ CHR ''/'' # b"
  have tw: "takeWhile (\<lambda>x. x \<noteq> CHR ''/'') (rev ?p) = rev b"
  proof -
    have "rev ?p = rev b @ CHR ''/'' # rev a" by simp
    moreover have "takeWhile (\<lambda>x. x \<noteq> CHR ''/'') (rev b @ CHR ''/'' # rev a) = rev b"
      using assms(3) by (auto simp: takeWhile_tail takeWhile_eq_all_conv)
    ultimately show ?thesis by simp
  qed
  have hd: "take (length ?p - length (rev (rev b))) ?p = a @ ''/''"
    by simp
  have ns: "a @ ''/'' \<noteq> replicate (length (a @ ''/'')) CHR ''/''"
  proof
    assume "a @ ''/'' = replicate (length (a @ ''/'')) CHR ''/''"
    then have "set (a @ ''/'') \<subseteq> {CHR ''/''}"
      by (metis set_replicate_conv_if subset_insertI empty_subsetI order_refl)
    then have "last a = CHR ''/''" using assms(1) last_in_set by fastforce
    then show False using assms(2) by simp
  qed
  have rs: "rstrip CHR ''/'' (a @ ''/'') = a"
  proof -
    have "rev a \<noteq> []" "hd (rev a) \<noteq> CHR ''/''"
      using assms(1,2) by (simp_all add: hd_rev)
    then have "dropWhile (\<lambda>x. x = CHR ''/'') (rev a) = rev a"
      by (cases "rev a") auto
    then show ?thesis by (simp add: rstrip_def)
  qed
  show ?thesis
    unfolding path_split_def tw Let_def hd using ns rs by simp
qed

lemma lookup_node_append:
  "lookup_node n (xs @ ys) =
     (case lookup_node n xs of None \<Rightarrow> None | Some m \<Rightarrow> lookup_node m ys)"
proof (induction xs arbitrary: n)
  case Nil
  then show ?case by simp
next
  case (Cons x xs)
  then show ?case by (cases n) (auto split: option.splits)
qed

lemma has_file_lookup:
  "lookup_node n ss = Some m \<Longrightarrow> \<not> has_file keep n \<Longrightarrow> \<not> has_file keep m"
proof (induction ss arbitrary: n)
  case Nil
  then show ?case by simp
next
  case (Cons s ss)
  then obtain es c where n: "n = Dir es" "map_of es s = Some c" "lookup_node c ss = Some m"
    by (cases n) (auto split: option.splits)
  have "(s, c) \<in> set es" using n(2) by (rule map_of_SomeD)
  then have "\<not> has_file keep c" using Cons.prems(2) n(1) by auto
  then show ?case using Cons.IH n(3) by blast
qed

lemma collect_files_concat:
  "collect_files keep (concat tss) = concat (map (collect_files keep) tss)"
  by (induction tss) (simp_all add: collect_files_def)

lemma walk_no_file: "\<not> has_file keep n \<Longrightarrow> collect_files keep (walk r n) = []"
proof (induction r n rule: walk.induct)
  case (1 root es)
  have files: "filter keep (map fst (filter (\<lambda>e. \<not> is_dir_node (snd e)) es)) = []"
    using "1.prems" by (auto simp: filter_empty_conv)
  have sub: "\<forall>e \<in> set es. collect_files keep (walk (join2 root (fst e)) (snd e)) = []"
    using "1.IH" "1.prems" by auto
  have "collect_files keep (concat (map (\<lambda>e. walk (join2 root (fst e)) (snd e)) es)) = []"
    unfolding collect_files_concat using sub by simp
  then show ?case
    using files by (simp add: collect_files_def)
qed (simp_all add: collect_files_def)

lemma os_walk_no_file:
  assumes "\<forall>n. resolve w p = Some n \<longrightarrow> \<not> has_file keep n"
  shows "collect_files keep (os_walk w p) = []"
proof (cases "resolve w p")
  case None
  then show ?thesis by (simp add: os_walk_def collect_files_def)
next
  case (Some n)
  then show ?thesis using assms by (simp add: os_walk_def walk_no_file)
qed

lemma glob_smali_abs:
  assumes "\<forall>s \<in> set ds. clean_name s" and "ds \<noteq> []"
  shows "glob_smali w (abs_path ds) =
           (case resolve w (abs_path ds) of
              Some (Dir es) \<Rightarrow>
                map (\<lambda>e. join2 (join2 (abs_path ds) (fst e)) [])
                  (filter (\<lambda>e. is_dir_node (snd e) \<and> startswith (fst e) ''smali'') es)
            | _ \<Rightarrow> [])"
proof -
  let ?d = "abs_path ds"
  have ne: "?d \<noteq> []" by (rule abs_path_nonempty)
  have la: "last ?d \<noteq> CHR ''/''" by (rule abs_path_last [OF assms])
  have j: "join2 ?d ''smali*/'' = (?d @ ''/smali*'') @ CHR ''/'' # []"
    using join2_def [of ?d "''smali*/''"] ne la by (simp add: startswith_def endswith_sep)
  have s1: "fst (path_split ((?d @ ''/smali*'') @ CHR ''/'' # [])) = ?d @ ''/smali*''"
    by (subst path_split_plain) simp_all
  have s2: "fst (path_split (?d @ CHR ''/'' # ''smali*'')) = ?d"
    by (subst path_split_plain) (use ne la in simp_all)
  have s2': "fst (path_split (?d @ ''/smali*'')) = ?d"
    using s2 by simp
  show ?thesis
    unfolding glob_smali_def j Let_def s1 s2' using ne by simp
qed

lemma root_path_resolve:
  assumes "\<forall>s \<in> set ds. clean_name s" and "ds \<noteq> []" and "clean_name x"
  shows "resolve w (join2 (join2 (abs_path ds) x) []) = lookup_node (fs w) (ds @ [x])"
proof -
  let ?d = "abs_path ds"
  have c: "\<forall>s \<in> set (ds @ [x]). clean_name s" using assms(1,3) by simp
  have x: "CHR ''/'' \<notin> set x" "x \<noteq> []" using assms(3) clean_nameD by auto
  have j1: "join2 ?d x = abs_path (ds @ [x])"
    using join2_plain [OF abs_path_nonempty abs_path_last [OF assms(1,2)] x(1)]
    by (simp add: abs_path_snoc [OF assms(2)])
  have "last (abs_path (ds @ [x])) \<noteq> CHR ''/''"
    by (rule abs_path_last [OF c]) simp
  then have j2: "join2 (abs_path (ds @ [x])) [] = abs_path (ds @ [x]) @ ''/''"
    using join2_plain [of "abs_path (ds @ [x])" "[]"] abs_path_nonempty by simp
  have pl: "path_list (cwd w) (abs_path (ds @ [x]) @ ''/'') = ds @ [x]"
    by (rule path_list_abs_slash [OF c]) simp
  show ?thesis
    unfolding j1 j2 resolve_def pl by (simp add: abs_path_nonempty)
qed

lemma child_path_resolve:
  assumes "\<forall>s \<in> set ds. clean_name s" and "ds \<noteq> []" and "clean_name x"
  shows "resolve w (join2 (abs_path ds) x) = lookup_node (fs w) (ds @ [x])"
proof -
  have c: "\<forall>s \<in> set (ds @ [x]). clean_name s" using assms(1,3) by simp
  have x: "CHR ''/'' \<notin> set x" using assms(3) clean_nameD by auto
  have j1: "join2 (abs_path ds) x = abs_path (ds @ [x])"
    using join2_plain [OF abs_path_nonempty abs_path_last [OF assms(1,2)] x]
    by (simp add: abs_path_snoc [OF assms(2)])
  show ?thesis
    unfolding j1 by (rule resolve_abs [OF c])
qed

lemma below_root_no_file:
  assumes "\<forall>s \<in> set ds. clean_name s"
      and "\<forall>n. resolve w (abs_path ds) = Some n \<longrightarrow> \<not> has_file keep n"
      and "lookup_node (fs w) (ds @ xs) = Some m"
  shows "\<not> has_file keep m"
proof -
  from assms(3) obtain n where n: "lookup_node (fs w) ds = Some n" "lookup_node n xs = Some m"
    by (auto simp: lookup_node_append split: option.splits)
  have "resolve w (abs_path ds) = Some n"
    using n(1) by (simp add: resolve_abs [OF assms(1)])
  then have "\<not> has_file keep n" using assms(2) by blast
  then show ?thesis using has_file_lookup [OF n(2)] by blast
qed

text \<open>The same for every absolute path in normal form, \<open>/\<close> included.\<close>

lemma join2_abs_path:
  assumes "\<forall>s \<in> set ds. clean_name s" and "clean_name x"
  shows "join2 (abs_path ds) x = abs_path (ds @ [x])"
proof (cases "ds = []")
  case True
  have x: "CHR ''/'' \<notin> set x" using assms(2) clean_nameD by auto
  have "join2 ''/'' x = ''/'' @ x"
    by (rule join2_after_sep) (use x in simp_all)
  then show ?thesis using True by (simp add: abs_path_def)
next
  case False
  have x: "CHR ''/'' \<notin> set x" using assms(2) clean_nameD by auto
  show ?thesis
    using join2_plain [OF abs_path_nonempty abs_path_last [OF assms(1) False] x]
    by (simp add: abs_path_snoc [OF False])
qed

lemma glob_smali_root:
  "glob_smali w ''/'' =
     (case resolve w ''/'' of
        Some (Dir es) \<Rightarrow>
          map (\<lambda>e. join2 (join2 ''/'' (fst e)) [])
            (filter (\<lambda>e. is_dir_node (snd e) \<and> startswith (fst e) ''smali'') es)
      | _ \<Rightarrow> [])"
proof -
  have j: "join2 ''/'' ''smali*/'' = ''/smali*/''"
    by (simp add: join2_def startswith_def endswith_def)
  have s1: "fst (path_split ''/smali*/'') = ''/smali*''"
    by (simp add: path_split_def rstrip_def)
  have s2: "fst (path_split ''/smali*'') = ''/''"
    by (simp add: path_split_def rstrip_def)
  show ?thesis
    unfolding glob_smali_def j Let_def s1 s2 by simp
qed

lemma glob_smali_any:
  assumes "\<forall>s \<in> set ds. clean_name s"
  shows "glob_smali w (abs_path ds) =
           (case resolve w (abs_path ds) of
              Some (Dir es) \<Rightarrow>
                map (\<lambda>e. join2 (join2 (abs_path ds) (fst e)) [])
                  (filter (\<lambda>e. is_dir_node (snd e) \<and> startswith (fst e) ''smali'') es)
            | _ \<Rightarrow> [])"
proof (cases "ds = []")
  case True
  show ?thesis unfolding True abs_path_Nil by (rule glob_smali_root)
next
  case False
  then show ?thesis by (rule glob_smali_abs [OF assms])
qed

lemma root_path_resolve_any:
  assumes "\<forall>s \<in> set ds. clean_name s" and "clean_name x"
  shows "resolve w (join2 (join2 (abs_path ds) x) []) = lookup_node (fs w) (ds @ [x])"
proof -
  have c: "\<forall>s \<in> set (ds @ [x]). clean_name s" using assms by simp
  have "last (abs_path (ds @ [x])) \<noteq> CHR ''/''"
    by (rule abs_path_last [OF c]) simp
  then have j2: "join2 (abs_path (ds @ [x])) [] = abs_path (ds @ [x]) @ ''/''"
    using join2_plain [of "abs_path (ds @ [x])" "[]"] abs_path_nonempty by simp
  have pl: "path_list (cwd w) (abs_path (ds @ [x]) @ ''/'') = ds @ [x]"
    by (rule path_list_abs_slash [OF c]) simp
  show ?thesis
    unfolding join2_abs_path [OF assms] j2 resolve_def pl by (simp add: abs_path_nonempty)
qed

lemma child_path_resolve_any:
  assumes "\<forall>s \<in> set ds. clean_name s" and "clean_name x"
  shows "resolve w (join2 (abs_path ds) x) = lookup_node (fs w) (ds @ [x])"
proof -
  have c: "\<forall>s \<in> set (ds @ [x]). clean_name s" using assms by simp
  show ?thesis
    unfolding join2_abs_path [OF assms] by (rule resolve_abs [OF c])
qed

section \<open>The sample world, evaluated\<close>

lemma ex_resolve_t: "resolve ex_world ''/t.apk'' = Some (Zip [(''META-INF/MANIFEST.MF'', ''abc''), (''classes.dex'', ''dex'')])"
  using resolve_abs [of "[''t.apk'']" ex_world]
  by (simp add: abs_path_def clean_name_def ex_world_def ex_tree_def)

lemma ex_resolve_t2: "resolve ex_world ''/t2.apk'' = Some (Zip [(''classes.dex'', ''other''), (''META-INF/MANIFEST.MF'', ''abc'')])"
  using resolve_abs [of "[''t2.apk'']" ex_world]
  by (simp add: abs_path_def clean_name_def ex_world_def ex_tree_def)

lemma ex_resolve_n: "resolve ex_world ''/n.apk'' = Some (Zip [(''classes.dex'', ''dex'')])"
  using resolve_abs [of "[''n.apk'']" ex_world]
  by (simp add: abs_path_def clean_name_def ex_world_def ex_tree_def)

lemma ex_wd_abs:
  "ex_wd = abs_path [''home'', ''u'', ''.trueseeing2'', ''ba'', ''78'',
                     ''16bf8f01cfea414140de5dae2223b00361a396177a9cb410ff61f20015ad'']"
  by (simp add: ex_wd_def abs_path_def)

lemma ex_resolve_wd: "resolve ex_world ex_wd = Some ex_cache"
  unfolding ex_wd_abs
  by (subst resolve_abs) (simp_all add: clean_name_def ex_world_def ex_tree_def)

lemma ex_isdir_wd: "isdir ex_world ex_wd"
  by (simp add: isdir_def ex_resolve_wd ex_cache_def)

lemma ex_workdir: "workdir_of ex_world ''/t.apk'' = Inr ex_wd"
proof -
  have f: "fingerprint_of ex_world ''/t.apk'' =
           Inr ''ba7816bf8f01cfea414140de5dae2223b00361a396177a9cb410ff61f20015ad''"
    by (simp add: fingerprint_of_def zip_read_def ex_resolve_t sha256_hex_abc)
  have e: "environ ex_world ''HOME'' = Some ''/home/u''"
    by (simp add: ex_world_def)
  show ?thesis
    by (simp add: workdir_of_def f e path_join_def join2_def startswith_def endswith_def ex_wd_def)
qed

lemma ex_classes:
  "fst (disassembled_classes ex_world ex_short) =
     Inr (PyList [''/w/smali/B.smali'', ''/w/smali/a/C.smali'', ''/w/smali_classes2/a/C.smali''])"
  by code_simp

lemma ex_resources:
  "fst (disassembled_resources ex_world ex_short) =
     Inr (PyList [''/w/res/values/strings.xml'', ''/w/res/layout/main.xml''])"
  by code_simp

lemma ex_string_resource_files:
  "fst (string_resource_files ex_world ex_short) = Inr (PyList [''/w/res/values/strings.xml''])"
  by code_simp

lemma ex_search_default:
  "fst (search_defined_package re_match ex_world ex_short [''/dp'']) = None"
  "fst (snd (search_defined_package re_match ex_world ex_short [''/dp''])) =
     [''searching packages defining class: .'', ''a'']"
  by code_simp+

lemma ex_search_star:
  "fst (snd (search_defined_package re_match ex_world ex_short [''/dp'', ''.*''])) =
     [''searching packages defining class: .*'', [], ''a'']"
  by code_simp

lemma ex_source_name_B:
  "source_name_of_disassembled_class ex_world ex_short ''/w/smali/B.smali'' = Inr ''B.smali''"
  by code_simp

lemma ex_dalvik_types:
  "dalvik_type_of_disassembled_class ex_world ex_short ''/w/smali/a/C.smali'' = Inr ''La/C;''"
  "dalvik_type_of_disassembled_class ex_world ex_short ''/w/smali_classes2/a/C.smali'' = Inr ''La/C;''"
  "dalvik_type_of_disassembled_class ex_world ex_short ''/w/smali/B.smali'' = Inr ''LB;''"
  by code_simp+

lemma ex_first_call:
  "analyze ex_ext ''/t.apk'' False Context ex_world = (None, ex_ctx, ex_world)"
  using analyze_cached [OF _ ex_workdir ex_isdir_wd, of Context ex_ext False]
  by (simp add: Context_def ex_ctx_def)

section \<open>The claims\<close>

text \<open>
  C1. A context whose working directory is set has been analysed: every further call of
  \<open>analyze\<close>, whatever its arguments and whatever the world looks like by then, raises
  \<open>ValueError('analyzed once')\<close> and leaves the context and the world, the Fact Store
  included, exactly as they were.
\<close>

theorem analyze_once:
  assumes "wd c \<noteq> None"
  shows "analyze E a skip_resources c w = (Some (ValueError ''analyzed once''), c, w)"
  using assms by (auto simp: analyze_def)

theorem analyze_once_witness:
  "analyze ex_ext ''/t.apk'' False Context ex_world = (None, ex_ctx, ex_world) \<and>
   wd ex_ctx \<noteq> None \<and>
   analyze ex_ext ''/t2.apk'' True ex_ctx ex_world =
     (Some (ValueError ''analyzed once''), ex_ctx, ex_world)"
proof -
  have h: "wd ex_ctx \<noteq> None" by (simp add: ex_ctx_def)
  show ?thesis using h analyze_once [OF h] ex_first_call by simp
qed

text \<open>
  C2. When the cache directory of a package exists, \<open>analyze\<close> on a context not yet
  analysed returns normally and leaves the world as it found it: no command is run, no
  text reaches the parser, nothing is written. The context is bound to the directory;
  the store it then hands out is the one persisted there, so every query reads the
  persisted content, as it does through any context that opened that store before.
\<close>

theorem cache_reuse:
  assumes "wd c = None" and "state c ''ts2.store'' = None"
      and "workdir_of w a = Inr d" and "isdir w d"
  shows "(case analyze E a skip_resources c w of
            (r, c', w') \<Rightarrow>
              r = None \<and> w' = w \<and> commands w' = commands w \<and> parsed w' = parsed w \<and>
              c' = c\<lparr>apk := Some a, wd := Some d\<rparr> \<and>
              fst (store c') = Inr (Store d) \<and>
              query q w' c' = Inr (q (stores w d)) \<and>
              (\<forall>c1. wd c1 = Some d \<and> state c1 ''ts2.store'' = Some (Store d) \<longrightarrow>
                    query q w' c1 = query q w' c'))"
proof -
  let ?c = "c\<lparr>apk := Some a, wd := Some d\<rparr>"
  have a: "analyze E a skip_resources c w = (None, ?c, w)"
    by (rule analyze_cached [OF assms(1,3,4)])
  have s: "fst (store ?c) = Inr (Store d)"
    using assms(2) by (simp add: store_def)
  have q: "query q w ?c = Inr (q (stores w d))"
    using assms(2) by (intro query_store) auto
  have q1: "\<forall>c1. wd c1 = Some d \<and> state c1 ''ts2.store'' = Some (Store d) \<longrightarrow>
                 query q w c1 = query q w ?c"
    using q query_store by metis
  show ?thesis
    unfolding a using s q q1 by simp
qed

theorem cache_reuse_witness:
  "wd Context = None \<and> state Context ''ts2.store'' = None \<and>
   workdir_of ex_world ''/t.apk'' = Inr ex_wd \<and> isdir ex_world ex_wd \<and>
   wd ex_ctx = Some ex_wd \<and>
   analyze ex_ext ''/t.apk'' False Context ex_world = (None, ex_ctx, ex_world) \<and>
   query length ex_world ex_ctx = Inr 2"
proof -
  have c: "wd Context = None" "state Context ''ts2.store'' = None"
    by (simp_all add: Context_def)
  have st: "stores ex_world ex_wd = [''LB;'', ''La/C;'']"
    by (simp add: ex_world_def)
  show ?thesis
    using cache_reuse [OF c ex_workdir ex_isdir_wd, where E = ex_ext and skip_resources = False
                         and q = length]
      c ex_workdir ex_isdir_wd
    by (simp add: ex_ctx_def st split: prod.splits)
qed

text \<open>
  C3. For a class file below a disassembly root of the working directory whose relative
  path holds \<open>.smali\<close> only as its extension, the dalvik type is the path with the
  working directory and the root segment stripped, the remaining segments joined by
  \<open>/\<close>, the extension dropped, wrapped in \<open>L\<close> and \<open>;\<close>. Two such files of the
  same root with the same type are the same file.
\<close>

theorem dalvik_type_of_class_file:
  assumes "\<forall>s \<in> set (ds @ root # segs @ segs'). clean_name s"
      and "segs \<noteq> []" and "segs' \<noteq> []"
      and "wd c = Some (abs_path ds)"
      and "py_find (join_with CHR ''/'' segs) ''.smali'' = Some (length (join_with CHR ''/'' segs) - 6)"
      and "py_find (join_with CHR ''/'' segs') ''.smali'' = Some (length (join_with CHR ''/'' segs') - 6)"
  shows "dalvik_type_of_disassembled_class w c (abs_path (ds @ root # segs)) =
           Inr (''L'' @ take (length (join_with CHR ''/'' segs) - 6) (join_with CHR ''/'' segs) @ '';'') \<and>
         join_with CHR ''/'' segs =
           take (length (join_with CHR ''/'' segs) - 6) (join_with CHR ''/'' segs) @ ''.smali'' \<and>
         (dalvik_type_of_disassembled_class w c (abs_path (ds @ root # segs)) =
          dalvik_type_of_disassembled_class w c (abs_path (ds @ root # segs')) \<longrightarrow>
            abs_path (ds @ root # segs) = abs_path (ds @ root # segs'))"
proof -
  let ?rel = "join_with CHR ''/'' segs" and ?rel' = "join_with CHR ''/'' segs'"
  have c1: "\<forall>s \<in> set (ds @ root # segs). clean_name s"
   and c2: "\<forall>s \<in> set (ds @ root # segs'). clean_name s"
    using assms(1) by auto
  have sn: "source_name_of_disassembled_class w c (abs_path (ds @ root # segs)) = Inr ?rel"
    by (rule source_name_clean [OF c1 assms(2,4)])
  have sn': "source_name_of_disassembled_class w c (abs_path (ds @ root # segs')) = Inr ?rel'"
    by (rule source_name_clean [OF c2 assms(3,4)])
  note e = strip_extension [OF assms(5)] and e' = strip_extension [OF assms(6)]
  note r = e [THEN conjunct1] and r' = e' [THEN conjunct1]
  have t: "dalvik_type_of_disassembled_class w c (abs_path (ds @ root # segs)) =
           Inr (''L'' @ take (length ?rel - 6) ?rel @ '';'')"
    by (simp add: dalvik_type_of_disassembled_class_def sn r)
  have t': "dalvik_type_of_disassembled_class w c (abs_path (ds @ root # segs')) =
           Inr (''L'' @ take (length ?rel' - 6) ?rel' @ '';'')"
    by (simp add: dalvik_type_of_disassembled_class_def sn' r')
  have p: "abs_path (ds @ root # segs) = abs_path (ds @ [root]) @ ''/'' @ ?rel"
          "abs_path (ds @ root # segs') = abs_path (ds @ [root]) @ ''/'' @ ?rel'"
    using abs_path_append [of "ds @ [root]" segs] abs_path_append [of "ds @ [root]" segs']
          assms(2,3) by simp_all
  have inj: "dalvik_type_of_disassembled_class w c (abs_path (ds @ root # segs)) =
             dalvik_type_of_disassembled_class w c (abs_path (ds @ root # segs')) \<longrightarrow>
             abs_path (ds @ root # segs) = abs_path (ds @ root # segs')"
  proof
    assume "dalvik_type_of_disassembled_class w c (abs_path (ds @ root # segs)) =
            dalvik_type_of_disassembled_class w c (abs_path (ds @ root # segs'))"
    then have "take (length ?rel - 6) ?rel = take (length ?rel' - 6) ?rel'"
      unfolding t t' by simp
    then have "?rel = ?rel'"
      using e e' by metis
    then show "abs_path (ds @ root # segs) = abs_path (ds @ root # segs')"
      by (simp only: p)
  qed
  show ?thesis using t e inj by blast
qed

theorem dalvik_type_of_class_file_witness:
  "clean_name ''w'' \<and> clean_name ''smali'' \<and> clean_name ''a'' \<and> clean_name ''C.smali'' \<and>
   clean_name ''B.smali'' \<and>
   wd ex_short = Some (abs_path [''w'']) \<and>
   py_find ''a/C.smali'' ''.smali'' = Some (length ''a/C.smali'' - 6) \<and>
   py_find ''B.smali'' ''.smali'' = Some (length ''B.smali'' - 6) \<and>
   dalvik_type_of_disassembled_class ex_world ex_short ''/w/smali/a/C.smali'' = Inr ''La/C;'' \<and>
   dalvik_type_of_disassembled_class ex_world ex_short ''/w/smali/B.smali'' = Inr ''LB;'' \<and>
   ''/w/smali/a/C.smali'' \<noteq> ''/w/smali/B.smali''"
proof -
  have c: "\<forall>s \<in> set ([''w''] @ ''smali'' # [''a'', ''C.smali''] @ [''B.smali'']). clean_name s"
          "\<forall>s \<in> set ([''w''] @ ''smali'' # [''B.smali''] @ [''a'', ''C.smali'']). clean_name s"
    by (simp_all add: clean_name_def)
  have w: "wd ex_short = Some (abs_path [''w''])"
    by (simp add: ex_short_def abs_path_def)
  have f1: "py_find (join_with CHR ''/'' [''a'', ''C.smali'']) ''.smali'' =
            Some (length (join_with CHR ''/'' [''a'', ''C.smali'']) - 6)"
    by (simp add: startswith_def)
  have f2: "py_find (join_with CHR ''/'' [''B.smali'']) ''.smali'' =
            Some (length (join_with CHR ''/'' [''B.smali'']) - 6)"
    by (simp add: startswith_def)
  have p: "abs_path [''w'', ''smali'', ''a'', ''C.smali''] = ''/w/smali/a/C.smali''"
          "abs_path [''w'', ''smali'', ''B.smali''] = ''/w/smali/B.smali''"
    by (simp_all add: abs_path_def)
  show ?thesis
    using dalvik_type_of_class_file [OF c(1) _ _ w f1 f2, of ex_world]
          dalvik_type_of_class_file [OF c(2) _ _ w f2 f1, of ex_world] c(1) w f1 f2
    by (simp add: p)
qed

text \<open>
  The mapping is not injective on the class files of one package: the two roots of the
  sample package both hold \<open>a/C.smali\<close>, and the root segment is not part of the type.
\<close>

theorem dalvik_type_not_injective:
  "fst (disassembled_classes ex_world ex_short) =
     Inr (PyList [''/w/smali/B.smali'', ''/w/smali/a/C.smali'', ''/w/smali_classes2/a/C.smali'']) \<and>
   ''/w/smali/a/C.smali'' \<noteq> ''/w/smali_classes2/a/C.smali'' \<and>
   dalvik_type_of_disassembled_class ex_world ex_short ''/w/smali/a/C.smali'' = Inr ''La/C;'' \<and>
   dalvik_type_of_disassembled_class ex_world ex_short ''/w/smali_classes2/a/C.smali'' = Inr ''La/C;''"
  using ex_classes ex_dalvik_types by simp

text \<open>
  C4. Take a context whose working directory is bound to an absolute path in normal
  form that holds none of the glob metacharacters \<open>*\<close>, \<open>?\<close> and \<open>[\<close>, and whose
  listings are not cached yet. If that directory holds no class file and no resource
  file, both listings are empty and nothing is raised: this is so when the directory
  does not exist (or is not a directory), when it is empty, and when it holds other
  files only. The entries below the directory bear names a directory can hold
  (\<open>wf_node\<close>), as those of every real tree do.

  The metacharacters are excluded because \<open>glob.glob\<close> reads the working directory
  as part of its pattern: with one of them in it the class listing is that of whatever
  directories the pattern matches, whether or not a directory of that very name exists,
  and \<open>glob_smali\<close> does not model that.
\<close>

theorem listings_without_files:
  assumes "\<forall>s \<in> set ds. clean_name s" and "\<not> has_magic (abs_path ds)"
      and "wd c = Some (abs_path ds)"
      and "state c ''ts2.context.disassembled_classes'' = None"
      and "state c ''ts2.context.disassembled_resources'' = None"
      and "\<forall>n. resolve w (abs_path ds) = Some n \<longrightarrow>
             wf_node n \<and> \<not> has_file (\<lambda>f. endswith f ''.smali'') n
                       \<and> \<not> has_file (\<lambda>f. endswith f ''.xml'') n"
  shows "fst (disassembled_classes w c) = Inr (PyList []) \<and>
         fst (disassembled_resources w c) = Inr (PyList [])"
proof -
  let ?d = "abs_path ds"
  let ?smali = "\<lambda>f. endswith f ''.smali''" and ?xml = "\<lambda>f. endswith f ''.xml''"
  have nf1: "\<forall>n. resolve w ?d = Some n \<longrightarrow> \<not> has_file ?smali n"
   and nf2: "\<forall>n. resolve w ?d = Some n \<longrightarrow> \<not> has_file ?xml n"
    using assms(6) by blast+
  have classes: "collect_files ?smali (concat (map (os_walk w) (glob_smali w ?d))) = []"
  proof (cases "resolve w ?d")
    case None
    then show ?thesis
      by (simp add: glob_smali_any [OF assms(1)] collect_files_def)
  next
    case (Some n)
    show ?thesis
    proof (cases n)
      case (Dir es)
      have wf: "\<forall>e \<in> set es. clean_name (fst e)"
        using assms(6) Some Dir by auto
      have each: "collect_files ?smali (os_walk w (join2 (join2 ?d (fst e)) [])) = []"
        if "e \<in> set es" for e
      proof (rule os_walk_no_file, intro allI impI)
        fix m
        assume "resolve w (join2 (join2 ?d (fst e)) []) = Some m"
        then have "lookup_node (fs w) (ds @ [fst e]) = Some m"
          using root_path_resolve_any [OF assms(1), of "fst e" w] wf that by simp
        then show "\<not> has_file ?smali m"
          by (rule below_root_no_file [OF assms(1) nf1])
      qed
      have g: "glob_smali w ?d =
               map (\<lambda>e. join2 (join2 ?d (fst e)) [])
                 (filter (\<lambda>e. is_dir_node (snd e) \<and> startswith (fst e) ''smali'') es)"
        by (simp add: glob_smali_any [OF assms(1)] Some Dir)
      show ?thesis
        unfolding collect_files_concat g using each by (simp add: comp_def)
    qed (simp_all add: glob_smali_any [OF assms(1)] Some collect_files_def)
  qed
  have resources: "collect_files ?xml (os_walk w (join2 ?d ''res'')) = []"
  proof (rule os_walk_no_file, intro allI impI)
    fix m
    assume "resolve w (join2 ?d ''res'') = Some m"
    then have "lookup_node (fs w) (ds @ [''res'']) = Some m"
      using child_path_resolve_any [OF assms(1), of "''res''" w] by (simp add: clean_name_def)
    then show "\<not> has_file ?xml m"
      by (rule below_root_no_file [OF assms(1) nf2])
  qed
  show ?thesis
    using assms(3,4,5) classes resources
    by (simp add: disassembled_classes_def disassembled_resources_def memoized_def)
qed

theorem listings_without_files_witness:
  "\<not> has_magic (abs_path [''home'', ''u'', ''empty'']) \<and>
   resolve ex_world (abs_path [''home'', ''u'', ''empty'']) = Some (Dir []) \<and>
   fst (disassembled_classes ex_world (Context\<lparr>wd := Some ''/home/u/empty''\<rparr>)) = Inr (PyList []) \<and>
   fst (disassembled_resources ex_world (Context\<lparr>wd := Some ''/home/u/empty''\<rparr>)) = Inr (PyList []) \<and>
   \<not> has_magic (abs_path [''nowhere'']) \<and>
   resolve ex_world (abs_path [''nowhere'']) = None \<and>
   fst (disassembled_classes ex_world (Context\<lparr>wd := Some ''/nowhere''\<rparr>)) = Inr (PyList []) \<and>
   fst (disassembled_resources ex_world (Context\<lparr>wd := Some ''/nowhere''\<rparr>)) = Inr (PyList [])"
proof -
  have c1: "\<forall>s \<in> set [''home'', ''u'', ''empty'']. clean_name s"
   and c2: "\<forall>s \<in> set [''nowhere'']. clean_name s"
    by (simp_all add: clean_name_def)
  have m1: "\<not> has_magic (abs_path [''home'', ''u'', ''empty''])"
   and m2: "\<not> has_magic (abs_path [''nowhere''])"
    by (simp_all add: has_magic_def abs_path_def)
  have r1: "resolve ex_world (abs_path [''home'', ''u'', ''empty'']) = Some (Dir [])"
    by (subst resolve_abs [OF c1]) (simp add: ex_world_def ex_tree_def)
  have r2: "resolve ex_world (abs_path [''nowhere'']) = None"
    by (subst resolve_abs [OF c2]) (simp add: ex_world_def ex_tree_def)
  have p: "abs_path [''home'', ''u'', ''empty''] = ''/home/u/empty''"
          "abs_path [''nowhere''] = ''/nowhere''"
    by (simp_all add: abs_path_def)
  have w1: "wd (Context\<lparr>wd := Some ''/home/u/empty''\<rparr>) = Some (abs_path [''home'', ''u'', ''empty''])"
   and w2: "wd (Context\<lparr>wd := Some ''/nowhere''\<rparr>) = Some (abs_path [''nowhere''])"
    by (simp_all add: p)
  have s: "state (Context\<lparr>wd := x\<rparr>) k = None" for x k
    by (simp add: Context_def)
  have h1: "\<forall>n. resolve ex_world (abs_path [''home'', ''u'', ''empty'']) = Some n \<longrightarrow>
             wf_node n \<and> \<not> has_file (\<lambda>f. endswith f ''.smali'') n
                       \<and> \<not> has_file (\<lambda>f. endswith f ''.xml'') n"
    by (simp add: r1)
  have h2: "\<forall>n. resolve ex_world (abs_path [''nowhere'']) = Some n \<longrightarrow>
             wf_node n \<and> \<not> has_file (\<lambda>f. endswith f ''.smali'') n
                       \<and> \<not> has_file (\<lambda>f. endswith f ''.xml'') n"
    by (simp add: r2)
  show ?thesis
    using listings_without_files [OF c1 m1 w1 s s h1]
          listings_without_files [OF c2 m2 w2 s s h2]
          m1 m2 r1 r2
    by simp
qed

text \<open>
  The claim as stated, an error for a missing root, fails: with the working directory
  bound to a path that does not exist, both listings return the empty list.
\<close>

theorem missing_root_no_error:
  "resolve ex_world ''/nowhere'' = None \<and>
   fst (disassembled_classes ex_world (Context\<lparr>wd := Some ''/nowhere''\<rparr>)) = Inr (PyList []) \<and>
   fst (disassembled_resources ex_world (Context\<lparr>wd := Some ''/nowhere''\<rparr>)) = Inr (PyList [])"
  by code_simp

text \<open>
  C5. Two archives, in the same world or not, whose \<open>META-INF/MANIFEST.MF\<close> members
  hold the same bytes have the same fingerprint, the SHA-256 digest of those bytes in
  hexadecimal; with the same \<open>HOME\<close> they have the same working directory, and that
  directory is \<open>root/hash[0:2]/hash[2:4]/hash[4:]\<close> for the root
  \<open>os.path.join(HOME, '.trueseeing2')\<close>.
\<close>

theorem fingerprint_determined:
  assumes "resolve w1 a1 = Some (Zip ms1)" and "resolve w2 a2 = Some (Zip ms2)"
      and "map_of (rev ms1) ''META-INF/MANIFEST.MF'' = Some bytes"
      and "map_of (rev ms2) ''META-INF/MANIFEST.MF'' = Some bytes"
      and "environ w1 ''HOME'' = Some home" and "environ w2 ''HOME'' = Some home"
  shows "fingerprint_of w1 a1 = Inr (sha256_hex bytes) \<and>
         fingerprint_of w2 a2 = fingerprint_of w1 a1 \<and>
         workdir_of w2 a2 = workdir_of w1 a1 \<and>
         workdir_of w1 a1 =
           Inr (join_with CHR ''/''
                  [join2 home ''.trueseeing2'', take 2 (sha256_hex bytes),
                   take 2 (drop 2 (sha256_hex bytes)), drop 4 (sha256_hex bytes)])"
proof -
  have f1: "fingerprint_of w1 a1 = Inr (sha256_hex bytes)"
    using assms(1,3) by (simp add: fingerprint_of_def zip_read_def)
  have f2: "fingerprint_of w2 a2 = Inr (sha256_hex bytes)"
    using assms(2,4) by (simp add: fingerprint_of_def zip_read_def)
  have l: "path_join home [''.trueseeing2'', take 2 (sha256_hex bytes),
             take 2 (drop 2 (sha256_hex bytes)), drop 4 (sha256_hex bytes)] =
           join_with CHR ''/'' [join2 home ''.trueseeing2'', take 2 (sha256_hex bytes),
             take 2 (drop 2 (sha256_hex bytes)), drop 4 (sha256_hex bytes)]"
    by (rule workdir_layout [OF length_sha256_hex sep_notin_sha256_hex])
  have w1: "workdir_of w1 a1 = Inr (path_join home [''.trueseeing2'', take 2 (sha256_hex bytes),
             take 2 (drop 2 (sha256_hex bytes)), drop 4 (sha256_hex bytes)])"
    by (simp add: workdir_of_def f1 assms(5))
  have w2: "workdir_of w2 a2 = Inr (path_join home [''.trueseeing2'', take 2 (sha256_hex bytes),
             take 2 (drop 2 (sha256_hex bytes)), drop 4 (sha256_hex bytes)])"
    by (simp add: workdir_of_def f2 assms(6))
  show ?thesis
    unfolding f1 f2 w1 w2 l by simp
qed

theorem fingerprint_determined_witness:
  "resolve ex_world ''/t.apk'' = Some (Zip [(''META-INF/MANIFEST.MF'', ''abc''), (''classes.dex'', ''dex'')]) \<and>
   resolve ex_world ''/t2.apk'' = Some (Zip [(''classes.dex'', ''other''), (''META-INF/MANIFEST.MF'', ''abc'')]) \<and>
   environ ex_world ''HOME'' = Some ''/home/u'' \<and>
   fingerprint_of ex_world ''/t.apk'' = Inr (sha256_hex ''abc'') \<and>
   fingerprint_of ex_world ''/t2.apk'' = fingerprint_of ex_world ''/t.apk'' \<and>
   workdir_of ex_world ''/t2.apk'' = workdir_of ex_world ''/t.apk'' \<and>
   workdir_of ex_world ''/t.apk'' =
     Inr (join_with CHR ''/''
            [''/home/u/.trueseeing2'', take 2 (sha256_hex ''abc''),
             take 2 (drop 2 (sha256_hex ''abc'')), drop 4 (sha256_hex ''abc'')])"
proof -
  have e: "environ ex_world ''HOME'' = Some ''/home/u''"
    by (simp add: ex_world_def)
  have m1: "map_of (rev [(''META-INF/MANIFEST.MF'', ''abc''), (''classes.dex'', ''dex'')])
              ''META-INF/MANIFEST.MF'' = Some ''abc''" by simp
  have m2: "map_of (rev [(''classes.dex'', ''other''), (''META-INF/MANIFEST.MF'', ''abc'')])
              ''META-INF/MANIFEST.MF'' = Some ''abc''" by simp
  have j: "join2 ''/home/u'' ''.trueseeing2'' = ''/home/u/.trueseeing2''"
    by (simp add: join2_def startswith_def endswith_def)
  show ?thesis
    using fingerprint_determined [OF ex_resolve_t ex_resolve_t2 m1 m2 e e]
      ex_resolve_t ex_resolve_t2 e
    by (simp add: j)
qed

text \<open>
  C6. Each of the three listings is computed at most once per context. Once a call has
  returned a value, every later call on the context it left returns that value and
  leaves the context as it is, in whatever world \<open>w'\<close> it runs: the file tree is not
  consulted again.
\<close>

theorem listings_memoized:
  "(fst (disassembled_classes w c) = Inr v \<longrightarrow>
      disassembled_classes w' (snd (disassembled_classes w c)) =
        (Inr v, snd (disassembled_classes w c))) \<and>
   (fst (disassembled_resources w c) = Inr v \<longrightarrow>
      disassembled_resources w' (snd (disassembled_resources w c)) =
        (Inr v, snd (disassembled_resources w c))) \<and>
   (fst (string_resource_files w c) = Inr v \<longrightarrow>
      string_resource_files w' (snd (string_resource_files w c)) =
        (Inr v, snd (string_resource_files w c)))"
  unfolding disassembled_classes_def disassembled_resources_def string_resource_files_def
  using memoized_again by blast

theorem listings_memoized_witness:
  "fst (disassembled_classes ex_world ex_short) =
     Inr (PyList [''/w/smali/B.smali'', ''/w/smali/a/C.smali'', ''/w/smali_classes2/a/C.smali'']) \<and>
   disassembled_classes (ex_world\<lparr>fs := Dir []\<rparr>) (snd (disassembled_classes ex_world ex_short)) =
     (Inr (PyList [''/w/smali/B.smali'', ''/w/smali/a/C.smali'', ''/w/smali_classes2/a/C.smali'']),
      snd (disassembled_classes ex_world ex_short)) \<and>
   fst (disassembled_resources ex_world ex_short) =
     Inr (PyList [''/w/res/values/strings.xml'', ''/w/res/layout/main.xml'']) \<and>
   disassembled_resources (ex_world\<lparr>fs := Dir []\<rparr>) (snd (disassembled_resources ex_world ex_short)) =
     (Inr (PyList [''/w/res/values/strings.xml'', ''/w/res/layout/main.xml'']),
      snd (disassembled_resources ex_world ex_short)) \<and>
   fst (string_resource_files ex_world ex_short) = Inr (PyList [''/w/res/values/strings.xml'']) \<and>
   string_resource_files (ex_world\<lparr>fs := Dir []\<rparr>) (snd (string_resource_files ex_world ex_short)) =
     (Inr (PyList [''/w/res/values/strings.xml'']), snd (string_resource_files ex_world ex_short))"
  using listings_memoized [of ex_world ex_short
          "PyList [''/w/smali/B.smali'', ''/w/smali/a/C.smali'', ''/w/smali_classes2/a/C.smali'']"
          "ex_world\<lparr>fs := Dir []\<rparr>"]
        listings_memoized [of ex_world ex_short
          "PyList [''/w/res/values/strings.xml'', ''/w/res/layout/main.xml'']"
          "ex_world\<lparr>fs := Dir []\<rparr>"]
        listings_memoized [of ex_world ex_short "PyList [''/w/res/values/strings.xml'']"
          "ex_world\<lparr>fs := Dir []\<rparr>"]
        ex_classes ex_resources ex_string_resource_files
  by simp

text \<open>
  C7. The lines that follow the header are strictly increasing in the lexicographic
  order of strings: no package appears twice and the order is fixed. When the search
  returns normally on the class list \<open>rs\<close>, those lines are exactly the package paths
  of the class files of \<open>rs\<close> that the pattern matches. A strictly increasing list is
  determined by its set, so the output does not depend on the order in which the tree
  was enumerated.
\<close>

theorem defined_packages_listing:
  "sorted_wrt (<) (tl (fst (snd (search_defined_package m w c args)))) \<and>
   (search_defined_package m w c (cmd # rest) = (None, out, c') \<and>
    fst (disassembled_classes w c) = Inr (PyList rs) \<longrightarrow>
      hd out = ''searching packages defining class: '' @ (case rest of [] \<Rightarrow> ''.'' | p # ps \<Rightarrow> p) \<and>
      set (tl out) =
        {dirname fn | x fn. x \<in> set rs \<and> source_name_of_disassembled_class w c x = Inr fn \<and>
           endswith fn ''.smali'' \<and>
           m (case rest of [] \<Rightarrow> ''.'' | p # ps \<Rightarrow> p) (dirname fn) = Inr True})"
proof
  show "sorted_wrt (<) (tl (fst (snd (search_defined_package m w c args))))"
  proof (cases args)
    case Nil
    then show ?thesis by (simp add: search_defined_package_def)
  next
    case (Cons a as)
    obtain res c1 where dc: "disassembled_classes w c = (res, c1)"
      by (cases "disassembled_classes w c") auto
    show ?thesis
    proof (cases res)
      case (Inl e)
      then show ?thesis by (simp add: search_defined_package_def Cons dc Let_def)
    next
      case (Inr v)
      show ?thesis
      proof (cases v)
        case (PyList xs)
        show ?thesis
        proof (cases "add_packages w c1 xs []")
          case (Inl e)
          then show ?thesis
            by (simp add: search_defined_package_def Cons dc Let_def Inr PyList)
        next
          case (Inr pkgs)
          have "sorted_wrt (<) (sort pkgs)"
            using add_packages_distinct [OF Inr] by (rule sorted_wrt_sort_distinct)
          then have "sorted_wrt (<) (snd (emit_packages m (case as of [] \<Rightarrow> ''.'' | p # ps \<Rightarrow> p) (sort pkgs)))"
            by (rule emit_packages_sorted)
          then show ?thesis
            by (simp add: search_defined_package_def Cons dc Let_def \<open>res = Inr v\<close> PyList Inr
                          split_beta)
        qed
      qed (simp_all add: search_defined_package_def Cons dc Let_def Inr)
    qed
  qed
next
  let ?pat = "case rest of [] \<Rightarrow> ''.'' | p # ps \<Rightarrow> p"
  show "search_defined_package m w c (cmd # rest) = (None, out, c') \<and>
        fst (disassembled_classes w c) = Inr (PyList rs) \<longrightarrow>
        hd out = ''searching packages defining class: '' @ ?pat \<and>
        set (tl out) =
          {dirname fn | x fn. x \<in> set rs \<and> source_name_of_disassembled_class w c x = Inr fn \<and>
             endswith fn ''.smali'' \<and> m ?pat (dirname fn) = Inr True}"
  proof
    assume a: "search_defined_package m w c (cmd # rest) = (None, out, c') \<and>
               fst (disassembled_classes w c) = Inr (PyList rs)"
    obtain c1 where dc: "disassembled_classes w c = (Inr (PyList rs), c1)"
      using a by (cases "disassembled_classes w c") auto
    have wd1: "wd c1 = wd c"
      using disassembled_classes_wd [of w c] dc by simp
    have sn: "source_name_of_disassembled_class w c1 = source_name_of_disassembled_class w c"
      by (rule source_name_cong [OF wd1])
    from a obtain pkgs where pk: "add_packages w c1 rs [] = Inr pkgs"
      by (cases "add_packages w c1 rs []")
         (auto simp: search_defined_package_def dc Let_def)
    obtain r out' where em: "emit_packages m ?pat (sort pkgs) = (r, out')"
      by (cases "emit_packages m ?pat (sort pkgs)") auto
    have res: "r = None" "out = (''searching packages defining class: '' @ ?pat) # out'"
      using a by (auto simp: search_defined_package_def dc Let_def pk em)
    have pp: "distinct pkgs \<and>
              set pkgs = {dirname fn | x fn. x \<in> set rs \<and>
                 source_name_of_disassembled_class w c x = Inr fn \<and> endswith fn ''.smali''}"
      using add_packages_props [OF pk] by (simp add: sn)
    have so: "sorted_wrt (<) (sort pkgs)"
      using pp by (intro sorted_wrt_sort_distinct) simp
    have "set out' = {p \<in> set (sort pkgs). m ?pat p = Inr True}"
      using emit_packages_props [OF em so] res(1) by simp
    then have "set out' = {dirname fn | x fn. x \<in> set rs \<and>
                 source_name_of_disassembled_class w c x = Inr fn \<and> endswith fn ''.smali'' \<and>
                 m ?pat (dirname fn) = Inr True}"
      using pp by auto
    then show "hd out = ''searching packages defining class: '' @ ?pat \<and>
        set (tl out) =
          {dirname fn | x fn. x \<in> set rs \<and> source_name_of_disassembled_class w c x = Inr fn \<and>
             endswith fn ''.smali'' \<and> m ?pat (dirname fn) = Inr True}"
      by (simp add: res(2))
  qed
qed

theorem defined_packages_listing_witness:
  "search_defined_package re_match ex_world ex_short [''/dp''] =
     (None, [''searching packages defining class: .'', ''a''],
      snd (snd (search_defined_package re_match ex_world ex_short [''/dp'']))) \<and>
   fst (disassembled_classes ex_world ex_short) =
     Inr (PyList [''/w/smali/B.smali'', ''/w/smali/a/C.smali'', ''/w/smali_classes2/a/C.smali'']) \<and>
   sorted_wrt (<) [''a''] \<and>
   set [''a''] =
     {dirname fn | x fn.
        x \<in> set [''/w/smali/B.smali'', ''/w/smali/a/C.smali'', ''/w/smali_classes2/a/C.smali''] \<and>
        source_name_of_disassembled_class ex_world ex_short x = Inr fn \<and>
        endswith fn ''.smali'' \<and> re_match ''.'' (dirname fn) = Inr True}"
proof -
  let ?s = "search_defined_package re_match ex_world ex_short [''/dp'']"
  have run: "?s = (None, [''searching packages defining class: .'', ''a''], snd (snd ?s))"
    using ex_search_default by (cases ?s) simp
  show ?thesis
    using defined_packages_listing
            [where m = re_match and w = ex_world and c = ex_short and args = "[''/dp'']"
               and cmd = "''/dp''" and rest = "[]"
               and out = "[''searching packages defining class: .'', ''a'']"
               and c' = "snd (snd ?s)"
               and rs = "[''/w/smali/B.smali'', ''/w/smali/a/C.smali'', ''/w/smali_classes2/a/C.smali'']"]
          run ex_classes
    by simp
qed

text \<open>
  C8. An archive without a member named exactly \<open>META-INF/MANIFEST.MF\<close> has no
  fingerprint: \<open>fingerprint_of\<close> raises \<open>KeyError\<close>, so does \<open>workdir_of\<close>, and
  \<open>analyze\<close> on a context not yet analysed raises it too, having recorded the archive
  but neither a working directory nor anything in the world.
\<close>

theorem fingerprint_needs_manifest:
  assumes "resolve w a = Some (Zip ms)"
      and "''META-INF/MANIFEST.MF'' \<notin> fst ` set ms"
  shows "fingerprint_of w a = Inl (KeyError ''META-INF/MANIFEST.MF'') \<and>
         workdir_of w a = Inl (KeyError ''META-INF/MANIFEST.MF'') \<and>
         (wd c = None \<longrightarrow>
            analyze E a skip_resources c w =
              (Some (KeyError ''META-INF/MANIFEST.MF''), c\<lparr>apk := Some a\<rparr>, w))"
proof -
  have "''META-INF/MANIFEST.MF'' \<notin> fst ` set (rev ms)"
    using assms(2) by simp
  then have m: "map_of (rev ms) ''META-INF/MANIFEST.MF'' = None"
    by (simp add: map_of_eq_None_iff)
  have f: "fingerprint_of w a = Inl (KeyError ''META-INF/MANIFEST.MF'')"
    using assms(1) m by (simp add: fingerprint_of_def zip_read_def)
  have wk: "workdir_of w a = Inl (KeyError ''META-INF/MANIFEST.MF'')"
    by (simp add: workdir_of_def f)
  show ?thesis
    by (auto simp: f wk analyze_def)
qed

theorem fingerprint_needs_manifest_witness:
  "resolve ex_world ''/n.apk'' = Some (Zip [(''classes.dex'', ''dex'')]) \<and>
   ''META-INF/MANIFEST.MF'' \<notin> fst ` set [(''classes.dex'', ''dex'')] \<and>
   wd Context = None \<and>
   fingerprint_of ex_world ''/n.apk'' = Inl (KeyError ''META-INF/MANIFEST.MF'') \<and>
   workdir_of ex_world ''/n.apk'' = Inl (KeyError ''META-INF/MANIFEST.MF'') \<and>
   analyze ex_ext ''/n.apk'' False Context ex_world =
     (Some (KeyError ''META-INF/MANIFEST.MF''), Context\<lparr>apk := Some ''/n.apk''\<rparr>, ex_world)"
proof -
  have n: "''META-INF/MANIFEST.MF'' \<notin> fst ` set [(''classes.dex'', ''dex'')]" by simp
  have c: "wd Context = None" by (simp add: Context_def)
  show ?thesis
    using fingerprint_needs_manifest [OF ex_resolve_n n, of Context ex_ext False] ex_resolve_n n c
    by simp
qed

text \<open>
  C9. For a key \<open>k\<close> that is not bound in the stash, the \<open>begin\<close> event with value
  \<open>k=v\<close> reads the current value \<open>ov\<close> of \<open>k\<close>, sets \<open>k\<close> to \<open>v\<close> and stashes
  \<open>ov\<close> under \<open>k\<close>. The matching \<open>end\<close> event, in whatever state the helper is by
  then, sets \<open>k\<close> to exactly the stashed value and unbinds \<open>k\<close>; the key is unbound
  also when that \<open>set_config\<close> raises, and the exception is passed on (as the fatal
  error of an unknown key when it is \<open>InvalidConfigKeyError\<close>).
\<close>

theorem config_mod_begin_end:
  assumes "stash s k = None"
      and "CHR ''='' \<notin> set k" and "CHR ''='' \<notin> set v" and "CHR ''='' \<notin> set v'"
      and "get_config ops (helper s) k = (Inr ov, h1)"
      and "set_config ops h1 k (PyStr v) = (None, h2)"
      and "stash s' k = Some ov"
  shows "config_mod ops ''begin'' (k @ ''='' @ v) s =
           (None, s\<lparr>helper := h2, stash := (stash s)(k \<mapsto> ov)\<rparr>) \<and>
         config_mod ops ''end'' (k @ ''='' @ v') s' =
           (map_option (unknown_key k) (fst (set_config ops (helper s') k ov)),
            s'\<lparr>helper := snd (set_config ops (helper s') k ov), stash := (stash s')(k := None)\<rparr>)"
proof -
  have sp: "split_on CHR ''='' (k @ CHR ''='' # v) = [k, v]"
           "split_on CHR ''='' (k @ CHR ''='' # v') = [k, v']"
    by (rule split_on_two [OF assms(2,3)], rule split_on_two [OF assms(2,4)])
  have b: "config_mod ops ''begin'' (k @ ''='' @ v) s =
           (None, s\<lparr>helper := h2, stash := (stash s)(k \<mapsto> ov)\<rparr>)"
    using assms(1,5,6) by (simp add: config_mod_def sp dom_def del: split_on.simps)
  have e: "config_mod ops ''end'' (k @ ''='' @ v') s' =
           (map_option (unknown_key k) (fst (set_config ops (helper s') k ov)),
            s'\<lparr>helper := snd (set_config ops (helper s') k ov), stash := (stash s')(k := None)\<rparr>)"
    using assms(7) by (simp add: config_mod_def sp split_beta del: split_on.simps)
  show ?thesis using b e by simp
qed

theorem config_mod_begin_end_witness:
  "stash ex_cmd ''debug'' = None \<and>
   config_mod ex_ops ''begin'' ''debug=1'' ex_cmd =
     (None, \<lparr>helper = [''debug'' \<mapsto> PyStr ''1''], stash = [''debug'' \<mapsto> PyBool False]\<rparr>) \<and>
   config_mod ex_ops ''end'' ''debug=1''
       \<lparr>helper = [''debug'' \<mapsto> PyStr ''1''], stash = [''debug'' \<mapsto> PyBool False]\<rparr> =
     (None, \<lparr>helper = [''debug'' \<mapsto> PyBool False], stash = Map.empty\<rparr>) \<and>
   config_mod ex_ops ''end'' ''debug=1''
       \<lparr>helper = Map.empty, stash = [''debug'' \<mapsto> PyBool False]\<rparr> =
     (Some (FatalError ''unknown key: debug''), \<lparr>helper = Map.empty, stash = Map.empty\<rparr>)"
proof -
  let ?h2 = "[''debug'' \<mapsto> PyStr ''1'']"
  have a1: "stash ex_cmd ''debug'' = None" by (simp add: ex_cmd_def)
  have a2: "CHR ''='' \<notin> set ''debug''" and a3: "CHR ''='' \<notin> set ''1''" by simp_all
  have a5: "get_config ex_ops (helper ex_cmd) ''debug'' = (Inr (PyBool False), helper ex_cmd)"
    by (simp add: ex_ops_def ex_cmd_def)
  have a6: "set_config ex_ops (helper ex_cmd) ''debug'' (PyStr ''1'') = (None, ?h2)"
    by (simp add: ex_ops_def ex_cmd_def)
  have a7: "stash \<lparr>helper = ?h2, stash = [''debug'' \<mapsto> PyBool False]\<rparr> ''debug'' = Some (PyBool False)"
    by simp
  have a7': "stash \<lparr>helper = (Map.empty :: string \<rightharpoonup> pyval), stash = [''debug'' \<mapsto> PyBool False]\<rparr> ''debug''
             = Some (PyBool False)"
    by simp
  have s1: "set_config ex_ops ?h2 ''debug'' (PyBool False) = (None, [''debug'' \<mapsto> PyBool False])"
    by (simp add: ex_ops_def)
  have s2: "set_config ex_ops Map.empty ''debug'' (PyBool False) = (Some InvalidConfigKeyError, Map.empty)"
    by (simp add: ex_ops_def)
  show ?thesis
    using config_mod_begin_end [OF a1 a2 a3 a3 a5 a6 a7]
          config_mod_begin_end [OF a1 a2 a3 a3 a5 a6 a7']
          a1
    by (simp add: s1 s2 ex_cmd_def unknown_key_def)
qed

text \<open>
  C10. A class file that lies directly in a disassembly root has its file name as source
  name and the empty string as package. Without a pattern argument the search runs with
  the pattern \<open>.\<close>, which the empty string does not match, so no empty line is ever
  printed; the same holds for every pattern that does not match the empty string.
\<close>

theorem root_package_not_listed:
  assumes "\<forall>s \<in> set (ds @ [root, f]). clean_name s" and "wd c = Some (abs_path ds)"
  shows "source_name_of_disassembled_class w c (abs_path (ds @ [root, f])) = Inr f \<and>
         dirname f = [] \<and>
         [] \<notin> set (fst (snd (search_defined_package re_match w c [cmd]))) \<and>
         (m pat [] \<noteq> Inr True \<longrightarrow>
            [] \<notin> set (fst (snd (search_defined_package m w c (cmd # pat # extra)))))"
proof -
  have sn: "source_name_of_disassembled_class w c (abs_path (ds @ [root, f])) = Inr f"
    using source_name_clean [of ds root "[f]" c w] assms by simp
  have f: "CHR ''/'' \<notin> set f"
    using assms(1) clean_nameD by auto
  have d: "[] \<notin> set (fst (snd (search_defined_package re_match w c [cmd])))"
    using search_output_shape [of re_match w c cmd "[]"]
          emit_packages_no_empty [of re_match "''.''"] re_match_dot_empty
    by auto
  have g: "m pat [] \<noteq> Inr True \<longrightarrow>
           [] \<notin> set (fst (snd (search_defined_package m w c (cmd # pat # extra))))"
    using search_output_shape [of m w c cmd "pat # extra"] emit_packages_no_empty [of m pat]
    by auto
  show ?thesis
    using sn dirname_no_sep [OF f] d g by simp
qed

theorem root_package_not_listed_witness:
  "clean_name ''w'' \<and> clean_name ''smali'' \<and> clean_name ''B.smali'' \<and>
   wd ex_short = Some (abs_path [''w'']) \<and>
   re_match ''a'' [] \<noteq> Inr True \<and>
   source_name_of_disassembled_class ex_world ex_short ''/w/smali/B.smali'' = Inr ''B.smali'' \<and>
   dirname ''B.smali'' = [] \<and>
   [] \<notin> set (fst (snd (search_defined_package re_match ex_world ex_short [''/dp'']))) \<and>
   [] \<notin> set (fst (snd (search_defined_package re_match ex_world ex_short [''/dp'', ''a''])))"
proof -
  have c: "\<forall>s \<in> set ([''w''] @ [''smali'', ''B.smali'']). clean_name s"
    by (simp add: clean_name_def)
  have w: "wd ex_short = Some (abs_path [''w''])"
    by (simp add: ex_short_def abs_path_def)
  have r: "re_match ''a'' [] \<noteq> Inr True"
    by (simp add: re_match_def re_atom_of_def re_special_def)
  have p: "abs_path ([''w''] @ [''smali'', ''B.smali'']) = ''/w/smali/B.smali''"
    by (simp add: abs_path_def)
  show ?thesis
    using root_package_not_listed [OF c w, where w = ex_world and cmd = "''/dp''"
            and m = re_match and pat = "''a''" and extra = "[]"] c w r
    by (simp only: p) simp
qed

text \<open>
  The claim as stated, for every pattern, fails: the pattern \<open>.*\<close> matches the empty
  string, and the root package of \<open>/w/smali/B.smali\<close> is printed as an empty line.
\<close>

theorem root_package_listed:
  "fst (disassembled_classes ex_world ex_short) =
     Inr (PyList [''/w/smali/B.smali'', ''/w/smali/a/C.smali'', ''/w/smali_classes2/a/C.smali'']) \<and>
   source_name_of_disassembled_class ex_world ex_short ''/w/smali/B.smali'' = Inr ''B.smali'' \<and>
   dirname ''B.smali'' = [] \<and>
   [] \<in> set (tl (fst (snd (search_defined_package re_match ex_world ex_short [''/dp'', ''.*'']))))"
  using ex_classes ex_source_name_B ex_search_star
  by (simp add: dirname_no_sep)

end
